theory Spec2Isabelle
  imports Complex_Main "HOL-Library.Sublist" "HOL-Library.List_Lexorder" "HOL-Library.Char_ord"
    "HOL-Library.Log_Nat"
begin

section \<open>Go strings as byte lists\<close>

text \<open>
  A Go \<^verbatim>\<open>string\<close> is a sequence of bytes and \<^verbatim>\<open>len\<close> counts bytes, so a string
  is modelled as a \<^typ>\<open>string\<close> whose characters are the bytes of the Go string
  (UTF-8 for text), and \<^const>\<open>length\<close> is Go's \<^verbatim>\<open>len\<close>.
\<close>

definition is_ascii :: "char \<Rightarrow> bool" where
  "is_ascii c = ((of_char c :: nat) < 128)"

definition isDigit :: "char \<Rightarrow> bool" where
  "isDigit c = (48 \<le> (of_char c :: nat) \<and> (of_char c :: nat) \<le> 57)"

text \<open>\<^verbatim>\<open>int(a - b)\<close> on two bytes: the subtraction is done in \<^verbatim>\<open>uint8\<close> and wraps.\<close>

definition byte_sub :: "char \<Rightarrow> char \<Rightarrow> int" where
  "byte_sub a b = int (((of_char a :: nat) + 256 - (of_char b :: nat)) mod 256)"

subsection \<open>strings.TrimSpace\<close>

text \<open>
  \<^verbatim>\<open>strings.TrimSpace\<close> removes leading and trailing white space as defined by Unicode
  (\<^verbatim>\<open>unicode.IsSpace\<close>): the six ASCII bytes tab, LF, VT, FF, CR and space, and the
  runes U+0085, U+00A0, U+1680, U+2000 .. U+200A, U+2028, U+2029, U+202F, U+205F and
  U+3000, which appear in the byte string as their UTF-8 encodings. A byte that does
  not start a valid encoding decodes to U+FFFD, which is not white space, so trimming
  stops there.
\<close>

definition space_seqs :: "string list" where
  "space_seqs =
    [[CHR 0x09], [CHR 0x0A], [CHR 0x0B], [CHR 0x0C], [CHR 0x0D], [CHR 0x20],
     [CHR 0xC2, CHR 0x85], [CHR 0xC2, CHR 0xA0],
     [CHR 0xE1, CHR 0x9A, CHR 0x80],
     [CHR 0xE2, CHR 0x80, CHR 0x80], [CHR 0xE2, CHR 0x80, CHR 0x81],
     [CHR 0xE2, CHR 0x80, CHR 0x82], [CHR 0xE2, CHR 0x80, CHR 0x83],
     [CHR 0xE2, CHR 0x80, CHR 0x84], [CHR 0xE2, CHR 0x80, CHR 0x85],
     [CHR 0xE2, CHR 0x80, CHR 0x86], [CHR 0xE2, CHR 0x80, CHR 0x87],
     [CHR 0xE2, CHR 0x80, CHR 0x88], [CHR 0xE2, CHR 0x80, CHR 0x89],
     [CHR 0xE2, CHR 0x80, CHR 0x8A],
     [CHR 0xE2, CHR 0x80, CHR 0xA8], [CHR 0xE2, CHR 0x80, CHR 0xA9],
     [CHR 0xE2, CHR 0x80, CHR 0xAF],
     [CHR 0xE2, CHR 0x81, CHR 0x9F],
     [CHR 0xE3, CHR 0x80, CHR 0x80]]"

text \<open>Remove, as long as there is one, a leading occurrence of one of the sequences.\<close>

function strip_leading :: "string list \<Rightarrow> string \<Rightarrow> string" where
  "strip_leading ps s =
     (case find (\<lambda>p. p \<noteq> [] \<and> prefix p s) ps of
        None \<Rightarrow> s
      | Some p \<Rightarrow> strip_leading ps (drop (length p) s))"
  by pat_completeness auto
termination
proof (relation "measure (\<lambda>(ps, s). length s)")
  show "wf (measure (\<lambda>(ps, s). length s))" by simp
next
  fix ps :: "string list" and s p :: string
  assume "find (\<lambda>p. p \<noteq> [] \<and> prefix p s) ps = Some p"
  then have "p \<noteq> []" and "prefix p s"
    by (auto simp: find_Some_iff)
  then have "s \<noteq> []" and "0 < length p"
    by auto
  then show "((ps, drop (length p) s), (ps, s)) \<in> measure (\<lambda>(ps, s). length s)"
    by simp
qed

definition TrimSpace :: "string \<Rightarrow> string" where
  "TrimSpace s = rev (strip_leading (map rev space_seqs) (rev (strip_leading space_seqs s)))"

subsection \<open>strings.ReplaceAll, strings.ToUpper\<close>

text \<open>\<^verbatim>\<open>strings.ReplaceAll(s, old, "")\<close> for a one-byte \<^verbatim>\<open>old\<close> deletes that byte.\<close>

definition ReplaceAll_empty :: "string \<Rightarrow> char \<Rightarrow> string" where
  "ReplaceAll_empty s old = filter (\<lambda>c. c \<noteq> old) s"

definition upper_byte :: "char \<Rightarrow> char" where
  "upper_byte c =
     (if 97 \<le> (of_char c :: nat) \<and> (of_char c :: nat) \<le> 122
      then char_of ((of_char c :: nat) - 32) else c)"

text \<open>
  \<^verbatim>\<open>strings.ToUpper\<close> maps the bytes \<^verbatim>\<open>a..z\<close> to \<^verbatim>\<open>A..Z\<close> when the string is pure
  ASCII. A string with a byte \<open>\<ge> 0x80\<close> goes through \<^verbatim>\<open>strings.Map(unicode.ToUpper, s)\<close>,
  which depends on the Unicode case tables of the Go runtime; that path is the
  parameter \<open>uni\<close>, about which nothing is assumed.
\<close>

definition ToUpper :: "(string \<Rightarrow> string) \<Rightarrow> string \<Rightarrow> string" where
  "ToUpper uni s = (if list_all is_ascii s then map upper_byte s else uni s)"

section \<open>ISBN validation (internal/app/validation.go)\<close>

definition normalizeISBN :: "(string \<Rightarrow> string) \<Rightarrow> string \<Rightarrow> string" where
  "normalizeISBN uni s =
     ToUpper uni (ReplaceAll_empty (ReplaceAll_empty s (CHR '' '')) (CHR ''-''))"

text \<open>The regular expressions \<^verbatim>\<open>^\d{9}[\dX]$\<close> and \<^verbatim>\<open>^\d{13}$\<close> (RE2: \<^verbatim>\<open>\d\<close> is \<^verbatim>\<open>[0-9]\<close>,
  \<^verbatim>\<open>$\<close> is the end of the text).\<close>

definition reIsbn10 :: "string \<Rightarrow> bool" where
  "reIsbn10 s =
     (length s = 10 \<and> list_all isDigit (take 9 s) \<and> (isDigit (s ! 9) \<or> s ! 9 = CHR ''X''))"

definition reIsbn13 :: "string \<Rightarrow> bool" where
  "reIsbn13 s = (length s = 13 \<and> list_all isDigit s)"

text \<open>The loop \<^verbatim>\<open>for i := 0; i < 9; i++ { sum += (10 - i) * int(s[i]-'0') }\<close>.\<close>

function isbn10_loop :: "string \<Rightarrow> nat \<Rightarrow> int \<Rightarrow> int" where
  "isbn10_loop s i acc =
     (if i < 9 then isbn10_loop s (i + 1) (acc + (10 - int i) * byte_sub (s ! i) (CHR ''0''))
      else acc)"
  by pat_completeness auto
termination
  by (relation "measure (\<lambda>(s, i, acc). 9 - i)") auto

definition isValidISBN10 :: "string \<Rightarrow> bool" where
  "isValidISBN10 s =
     (if \<not> reIsbn10 s then False
      else
        let acc = isbn10_loop s 0 0;
            lastc = s ! 9;
            acc' = (if lastc = CHR ''X'' then acc + 10 else acc + byte_sub lastc (CHR ''0''))
        in acc' mod 11 = 0)"

text \<open>The loop of \<^verbatim>\<open>isValidISBN13\<close>: weight 1 at even and 3 at odd positions.\<close>

function isbn13_loop :: "string \<Rightarrow> nat \<Rightarrow> int \<Rightarrow> int" where
  "isbn13_loop s i acc =
     (if i < 12 then
        (let d = byte_sub (s ! i) (CHR ''0'')
         in isbn13_loop s (i + 1) (if i mod 2 = 0 then acc + d else acc + d * 3))
      else acc)"
  by pat_completeness auto
termination
  by (relation "measure (\<lambda>(s, i, acc). 12 - i)") auto

definition isValidISBN13 :: "string \<Rightarrow> bool" where
  "isValidISBN13 s =
     (if \<not> reIsbn13 s then False
      else
        let acc = isbn13_loop s 0 0;
            check = (10 - (acc mod 10)) mod 10
        in check = byte_sub (s ! 12) (CHR ''0''))"

definition isValidISBN :: "(string \<Rightarrow> string) \<Rightarrow> string \<Rightarrow> bool" where
  "isValidISBN uni s =
     (let n = normalizeISBN uni s
      in if length n = 10 then isValidISBN10 n
         else if length n = 13 then isValidISBN13 n
         else False)"

section \<open>float64 values\<close>

text \<open>
  A \<^verbatim>\<open>float64\<close> is not-a-number, an infinity or a finite value (a rational; the two
  zeros are not told apart, no operation below separates them). Comparison is exact
  and follows IEEE 754: every comparison with NaN is false.
\<close>

datatype float64 = NaN | PosInf | NegInf | Finite rat

fun f_less :: "float64 \<Rightarrow> float64 \<Rightarrow> bool" where
  "f_less NaN _ = False"
| "f_less _ NaN = False"
| "f_less PosInf _ = False"
| "f_less _ NegInf = False"
| "f_less NegInf _ = True"
| "f_less (Finite x) PosInf = True"
| "f_less (Finite x) (Finite y) = (x < y)"

subsection \<open>binary64 arithmetic\<close>

text \<open>
  The result of an arithmetic operation on finite values is its exact result rounded to
  the nearest binary64 value, ties to the value with an even significand (IEEE 754,
  round to nearest even), each operation on its own. \<open>pow2 e\<close> is \<open>2\<^sup>e\<close> and \<open>ilog2 q\<close> the
  exponent of the leading bit of \<open>q > 0\<close>. The significand has 53 bits and the smallest
  spacing of values is \<open>2\<^sup>-\<^sup>1\<^sup>0\<^sup>7\<^sup>4\<close>; a rounded value of \<open>2\<^sup>1\<^sup>0\<^sup>2\<^sup>4\<close> or more is an infinity.
\<close>

definition pow2 :: "int \<Rightarrow> rat" where
  "pow2 e = (if 0 \<le> e then 2 ^ nat e else 1 / 2 ^ nat (- e))"

definition ilog2 :: "rat \<Rightarrow> int" where
  "ilog2 q =
     (let (a, b) = quotient_of q; d = bitlen a - bitlen b
      in if pow2 d \<le> q then d else d - 1)"

definition round_even :: "rat \<Rightarrow> int" where
  "round_even x =
     (let f = \<lfloor>x\<rfloor>; r = x - of_int f
      in if r < 1 / 2 then f else if 1 / 2 < r then f + 1 else if even f then f else f + 1)"

definition round64 :: "rat \<Rightarrow> float64" where
  "round64 q =
     (if q = 0 then Finite 0
      else
        let e = max (ilog2 \<bar>q\<bar> - 52) (- 1074);
            v = of_int (round_even (q / pow2 e)) * pow2 e
        in if 1024 \<le> ilog2 \<bar>v\<bar> then (if 0 < q then PosInf else NegInf) else Finite v)"

fun f_mul :: "float64 \<Rightarrow> float64 \<Rightarrow> float64" where
  "f_mul (Finite x) (Finite y) = round64 (x * y)"
| "f_mul NaN _ = NaN"
| "f_mul _ NaN = NaN"
| "f_mul PosInf (Finite y) = (if y = 0 then NaN else if 0 < y then PosInf else NegInf)"
| "f_mul NegInf (Finite y) = (if y = 0 then NaN else if 0 < y then NegInf else PosInf)"
| "f_mul (Finite x) PosInf = (if x = 0 then NaN else if 0 < x then PosInf else NegInf)"
| "f_mul (Finite x) NegInf = (if x = 0 then NaN else if 0 < x then NegInf else PosInf)"
| "f_mul PosInf PosInf = PosInf"
| "f_mul PosInf NegInf = NegInf"
| "f_mul NegInf PosInf = NegInf"
| "f_mul NegInf NegInf = PosInf"

fun f_sub :: "float64 \<Rightarrow> float64 \<Rightarrow> float64" where
  "f_sub (Finite x) (Finite y) = round64 (x - y)"
| "f_sub NaN _ = NaN"
| "f_sub _ NaN = NaN"
| "f_sub PosInf PosInf = NaN"
| "f_sub NegInf NegInf = NaN"
| "f_sub PosInf _ = PosInf"
| "f_sub NegInf _ = NegInf"
| "f_sub (Finite x) PosInf = NegInf"
| "f_sub (Finite x) NegInf = PosInf"

text \<open>\<^verbatim>\<open>math.Round\<close>: the nearest integer, halves away from zero; \<^verbatim>\<open>math.Abs\<close>.\<close>

definition round_away :: "rat \<Rightarrow> int" where
  "round_away x = (if 0 \<le> x then \<lfloor>x + 1 / 2\<rfloor> else - \<lfloor>- x + 1 / 2\<rfloor>)"

fun Round :: "float64 \<Rightarrow> float64" where
  "Round (Finite x) = Finite (of_int (round_away x))"
| "Round x = x"

fun Abs :: "float64 \<Rightarrow> float64" where
  "Abs (Finite x) = Finite \<bar>x\<bar>"
| "Abs NaN = NaN"
| "Abs _ = PosInf"

subsection \<open>hasMax2Decimals\<close>

text \<open>
  \<^verbatim>\<open>hasMax2Decimals\<close> rejects NaN and the infinities. On a finite value it computes
  \<^verbatim>\<open>math.Abs(n*100 - math.Round(n*100)) < 1e-9\<close> in binary64 arithmetic. The validators
  are stated for any such test of a finite value (the parameter \<open>near\<close>, about which
  nothing is assumed); the test of the source is \<open>near64\<close>, in which the constant
  \<^verbatim>\<open>1e-9\<close> is the binary64 value nearest to \<open>10\<^sup>-\<^sup>9\<close>.
\<close>

definition hasMax2Decimals :: "(rat \<Rightarrow> bool) \<Rightarrow> float64 \<Rightarrow> bool" where
  "hasMax2Decimals near n =
     (case n of NaN \<Rightarrow> False | PosInf \<Rightarrow> False | NegInf \<Rightarrow> False | Finite x \<Rightarrow> near x)"

definition near64 :: "rat \<Rightarrow> bool" where
  "near64 x =
     (let scaled = f_mul (Finite x) (Finite 100);
          rounded = Round scaled
      in f_less (Abs (f_sub scaled rounded)) (round64 (1 / 10 ^ 9)))"

section \<open>The error accumulator\<close>

text \<open>
  \<^verbatim>\<open>ValidationError.Fields\<close> is a \<^verbatim>\<open>map[string]string\<close>, here the list of its
  entries in the order they were added (keys are unique); the nil map and the empty
  map are both \<open>[]\<close>. \<^verbatim>\<open>add\<close> keeps the first message of a field.
\<close>

type_synonym ValidationError = "(string \<times> string) list"

definition add :: "ValidationError \<Rightarrow> string \<Rightarrow> string \<Rightarrow> ValidationError" where
  "add v field msg = (if map_of v field = None then v @ [(field, msg)] else v)"

definition ok :: "ValidationError \<Rightarrow> bool" where
  "ok v = (length v = 0)"

section \<open>Book validation\<close>

definition minYear :: int where "minYear = 1000"
definition maxYear :: int where "maxYear = 9999"

definition isValidFourDigitYearInt :: "int \<Rightarrow> bool" where
  "isValidFourDigitYearInt y = (y \<ge> minYear \<and> y \<le> maxYear)"

record CreateBookInput =
  Title :: string
  Author :: string
  ISBN :: string
  Price :: float64
  PublicationYear :: int

text \<open>The pointer fields of \<^verbatim>\<open>UpdateBookInput\<close>: nil is \<open>None\<close>.\<close>

record UpdateBookInput =
  uTitle :: "string option"
  uAuthor :: "string option"
  uISBN :: "string option"
  uPrice :: "float64 option"
  uPublicationYear :: "int option"

text \<open>The sign \<^verbatim>\<open>\<le>\<close> of the messages is the three bytes E2 89 A4 of its UTF-8 encoding.\<close>

definition le_sign :: string where
  "le_sign = [CHR 0xE2, CHR 0x89, CHR 0xA4]"

definition ge_sign :: string where
  "ge_sign = [CHR 0xE2, CHR 0x89, CHR 0xA5]"

definition msg_title_long :: string where
  "msg_title_long = ''Title must be '' @ le_sign @ '' 120 characters''"

definition msg_author_long :: string where
  "msg_author_long = ''Author must be '' @ le_sign @ '' 80 characters''"

definition msg_isbn_invalid :: string where
  "msg_isbn_invalid = ''Invalid ISBN (must be ISBN-10 or ISBN-13)''"

definition msg_year_digits :: string where
  "msg_year_digits = ''Publication year must be a 4-digit number''"

definition msg_price_neg :: string where
  "msg_price_neg = ''Price must be '' @ ge_sign @ '' 0''"

definition validateAndNormalizeCreate ::
  "(string \<Rightarrow> string) \<Rightarrow> (rat \<Rightarrow> bool) \<Rightarrow> CreateBookInput
     \<Rightarrow> CreateBookInput \<times> ValidationError option" where
  "validateAndNormalizeCreate uni near in0 =
     (let errs0 = [];
          in1 = in0\<lparr>Title := TrimSpace (Title in0)\<rparr>;
          errs1 = (if Title in1 = [] then add errs0 ''title'' ''Title is required''
                   else if length (Title in1) > 120 then add errs0 ''title'' msg_title_long
                   else errs0);
          in2 = in1\<lparr>Author := TrimSpace (Author in1)\<rparr>;
          errs2 = (if Author in2 = [] then add errs1 ''author'' ''Author is required''
                   else if length (Author in2) > 80 then add errs1 ''author'' msg_author_long
                   else errs1);
          in3 = in2\<lparr>ISBN := TrimSpace (ISBN in2)\<rparr>;
          errs3 = (if ISBN in3 = [] then add errs2 ''isbn'' ''ISBN is required''
                   else if \<not> isValidISBN uni (ISBN in3) then add errs2 ''isbn'' msg_isbn_invalid
                   else errs2);
          in4 = (if ISBN in3 = [] then in3
                 else if \<not> isValidISBN uni (ISBN in3) then in3
                 else in3\<lparr>ISBN := normalizeISBN uni (ISBN in3)\<rparr>);
          errs4 = (if PublicationYear in4 = 0
                   then add errs3 ''publication_year'' ''Publication year is required''
                   else if \<not> isValidFourDigitYearInt (PublicationYear in4)
                   then add errs3 ''publication_year'' msg_year_digits
                   else errs3);
          errs5 = (if f_less (Price in4) (Finite 0) then add errs4 ''price'' msg_price_neg
                   else if f_less (Finite 1000000) (Price in4)
                   then add errs4 ''price'' ''Price is too large''
                   else if \<not> hasMax2Decimals near (Price in4)
                   then add errs4 ''price'' ''Max 2 decimal places''
                   else errs4)
      in if \<not> ok errs5 then (in4, Some errs5) else (in4, None))"

definition validateAndNormalizeUpdate ::
  "(string \<Rightarrow> string) \<Rightarrow> (rat \<Rightarrow> bool) \<Rightarrow> UpdateBookInput
     \<Rightarrow> UpdateBookInput \<times> ValidationError option" where
  "validateAndNormalizeUpdate uni near in0 =
     (let errs0 = [];
          (in1, errs1) =
            (case uTitle in0 of
               None \<Rightarrow> (in0, errs0)
             | Some title \<Rightarrow>
                 (let t = TrimSpace title
                  in if t = [] then (in0, add errs0 ''title'' ''Title is required'')
                     else if length t > 120 then (in0, add errs0 ''title'' msg_title_long)
                     else (in0\<lparr>uTitle := Some t\<rparr>, errs0)));
          (in2, errs2) =
            (case uAuthor in1 of
               None \<Rightarrow> (in1, errs1)
             | Some author \<Rightarrow>
                 (let a = TrimSpace author
                  in if a = [] then (in1, add errs1 ''author'' ''Author is required'')
                     else if length a > 80 then (in1, add errs1 ''author'' msg_author_long)
                     else (in1\<lparr>uAuthor := Some a\<rparr>, errs1)));
          (in3, errs3) =
            (case uISBN in2 of
               None \<Rightarrow> (in2, errs2)
             | Some isbn \<Rightarrow>
                 (let s = TrimSpace isbn
                  in if s = [] then (in2, add errs2 ''isbn'' ''ISBN is required'')
                     else if \<not> isValidISBN uni s then (in2, add errs2 ''isbn'' msg_isbn_invalid)
                     else (let ns = normalizeISBN uni s in (in2\<lparr>uISBN := Some ns\<rparr>, errs2))));
          errs4 =
            (case uPublicationYear in3 of
               None \<Rightarrow> errs3
             | Some y \<Rightarrow>
                 if \<not> isValidFourDigitYearInt y
                 then add errs3 ''publication_year'' msg_year_digits
                 else errs3);
          errs5 =
            (case uPrice in3 of
               None \<Rightarrow> errs4
             | Some p \<Rightarrow>
                 if f_less p (Finite 0) then add errs4 ''price'' msg_price_neg
                 else if f_less (Finite 1000000) p then add errs4 ''price'' ''Price is too large''
                 else if \<not> hasMax2Decimals near p then add errs4 ''price'' ''Max 2 decimal places''
                 else errs4)
      in if \<not> ok errs5 then (in3, Some errs5) else (in3, None))"

section \<open>The specification's wording, and auxiliary notions\<close>

declare isbn10_loop.simps [simp del]
declare isbn13_loop.simps [simp del]

text \<open>The specification's \<open>digit(i)\<close>: the numeric value of a decimal digit character.\<close>

definition spec_digit :: "char \<Rightarrow> int" where
  "spec_digit c = int (of_char c) - 48"

text \<open>
  The specification's ISBN-10 rule: a 10-character candidate, nine digits followed by a
  digit or \<^verbatim>\<open>X\<close>, whose weighted sum \<open>\<Sum>i=0..8. (10 - i) * digit(i)\<close>, plus 10 for a final
  \<^verbatim>\<open>X\<close> or else the value of the last digit, is divisible by 11.
\<close>

definition spec_isbn10 :: "string \<Rightarrow> bool" where
  "spec_isbn10 n =
     (length n = 10 \<and> (\<forall>i\<in>{0..<9}. isDigit (n ! i)) \<and> (isDigit (n ! 9) \<or> n ! 9 = CHR ''X'') \<and>
      ((\<Sum>i = 0..<9. (10 - int i) * spec_digit (n ! i)) +
         (if n ! 9 = CHR ''X'' then 10 else spec_digit (n ! 9))) mod 11 = 0)"

text \<open>
  The specification's ISBN-13 rule: a 13-digit candidate whose last digit equals
  \<open>(10 - (\<Sum>i=0..11. digit(i) * (1 if i even else 3)) mod 10) mod 10\<close>.
\<close>

definition spec_isbn13 :: "string \<Rightarrow> bool" where
  "spec_isbn13 n =
     (length n = 13 \<and> (\<forall>i\<in>{0..<13}. isDigit (n ! i)) \<and>
      spec_digit (n ! 12) =
        (10 - ((\<Sum>i = 0..<12. spec_digit (n ! i) * (if even i then 1 else 3)) mod 10)) mod 10)"

text \<open>The entries of a returned error (none when the error is nil).\<close>

definition errors_of :: "ValidationError option \<Rightarrow> ValidationError" where
  "errors_of r = (case r of None \<Rightarrow> [] | Some e \<Rightarrow> e)"

text \<open>A string with no white space at either end.\<close>

definition outer_trimmed :: "string \<Rightarrow> bool" where
  "outer_trimmed s = list_all (\<lambda>p. \<not> prefix p s \<and> \<not> suffix p s) space_seqs"

text \<open>
  The specification's normalized form of an ISBN: spaces and hyphens removed, and the
  letters \<^verbatim>\<open>a\<close> to \<^verbatim>\<open>z\<close> replaced by \<^verbatim>\<open>A\<close> to \<^verbatim>\<open>Z\<close>.
\<close>

definition spec_strip :: "string \<Rightarrow> string" where
  "spec_strip s = filter (\<lambda>c. c \<noteq> CHR '' '' \<and> c \<noteq> CHR ''-'') s"

definition spec_upper :: "char \<Rightarrow> char" where
  "spec_upper c =
     (case map_of (zip ''abcdefghijklmnopqrstuvwxyz'' ''ABCDEFGHIJKLMNOPQRSTUVWXYZ'') c of
        Some C \<Rightarrow> C
      | None \<Rightarrow> c)"

definition spec_normalized :: "string \<Rightarrow> string" where
  "spec_normalized s = map spec_upper (spec_strip s)"

text \<open>
  White space is a sequence of white-space characters; \<open>t\<close> is the trimmed form of \<open>s\<close>
  when \<open>s\<close> is \<open>t\<close> between two stretches of white space and \<open>t\<close> has none at either end.
\<close>

definition white_space :: "string \<Rightarrow> bool" where
  "white_space w = (\<exists>ps. set ps \<subseteq> set space_seqs \<and> w = concat ps)"

definition trimmed_form :: "string \<Rightarrow> string \<Rightarrow> bool" where
  "trimmed_form s t =
     (outer_trimmed t \<and> (\<exists>pre post. white_space pre \<and> white_space post \<and> s = pre @ t @ post))"

text \<open>
  The number of characters of a UTF-8 text: every character has exactly one byte that is
  not a continuation byte (\<^verbatim>\<open>10xxxxxx\<close>).
\<close>

definition utf8_continuation :: "char \<Rightarrow> bool" where
  "utf8_continuation c = (128 \<le> (of_char c :: nat) \<and> (of_char c :: nat) < 192)"

definition characters :: "string \<Rightarrow> nat" where
  "characters s = length (filter (\<lambda>c. \<not> utf8_continuation c) s)"

text \<open>A title of 61 letters \<^verbatim>\<open>U+00E9\<close>, each of two bytes in UTF-8.\<close>

definition long_title :: string where
  "long_title = concat (replicate 61 [CHR 0xC3, CHR 0xA9])"

text \<open>The binary64 value nearest to \<open>10\<^sup>-\<^sup>9\<close>.\<close>

definition eps64 :: rat where
  "eps64 = 4835703278458517 / 2 ^ 82"

text \<open>
  The finite binary64 values: an integer of less than 53 bits times a power of two that
  is at least \<open>2\<^sup>-\<^sup>1\<^sup>0\<^sup>7\<^sup>4\<close>, below \<open>2\<^sup>1\<^sup>0\<^sup>2\<^sup>4\<close> in absolute value.
\<close>

definition on_grid :: "rat \<Rightarrow> bool" where
  "on_grid v =
     ((\<exists>m e. v = of_int m * pow2 e \<and> \<bar>m\<bar> < 2 ^ 53 \<and> - 1074 \<le> e) \<and> \<bar>v\<bar> < pow2 1024)"

section \<open>More of Go's strings package\<close>

definition lower_byte :: "char \<Rightarrow> char" where
  "lower_byte c =
     (if 65 \<le> (of_char c :: nat) \<and> (of_char c :: nat) \<le> 90
      then char_of ((of_char c :: nat) + 32) else c)"

text \<open>
  \<^verbatim>\<open>strings.ToLower\<close>, as \<^const>\<open>ToUpper\<close>: bytewise on a pure ASCII string, and through
  the Unicode tables (the parameter \<open>uni\<close>) otherwise.
\<close>

definition ToLower :: "(string \<Rightarrow> string) \<Rightarrow> string \<Rightarrow> string" where
  "ToLower uni s = (if list_all is_ascii s then map lower_byte s else uni s)"

definition TrimSuffix :: "string \<Rightarrow> string \<Rightarrow> string" where
  "TrimSuffix s suf = (if suffix suf s then take (length s - length suf) s else s)"

text \<open>\<^verbatim>\<open>strings.Cut(s, sep)\<close> for a one-byte separator: before, after, found.\<close>

definition Cut :: "string \<Rightarrow> char \<Rightarrow> string \<times> string \<times> bool" where
  "Cut s sep =
     (if sep \<in> set s then (takeWhile (\<lambda>c. c \<noteq> sep) s, tl (dropWhile (\<lambda>c. c \<noteq> sep) s), True)
      else (s, [], False))"

definition Count :: "string \<Rightarrow> char \<Rightarrow> nat" where
  "Count s c = length (filter (\<lambda>x. x = c) s)"

text \<open>\<^verbatim>\<open>strings.IndexByte\<close> and \<^verbatim>\<open>strings.LastIndex\<close> for one byte; \<open>None\<close> is \<open>-1\<close>.\<close>

definition IndexByte :: "string \<Rightarrow> char \<Rightarrow> nat option" where
  "IndexByte s c = (if c \<in> set s then Some (length (takeWhile (\<lambda>x. x \<noteq> c) s)) else None)"

fun LastIndexByte :: "string \<Rightarrow> char \<Rightarrow> nat option" where
  "LastIndexByte [] c = None"
| "LastIndexByte (x # xs) c =
     (case LastIndexByte xs c of
        Some i \<Rightarrow> Some (Suc i)
      | None \<Rightarrow> if x = c then Some 0 else None)"

text \<open>\<^verbatim>\<open>strings.Index(s, sub)\<close>: the first position at which \<open>sub\<close> occurs.\<close>

fun Index :: "string \<Rightarrow> string \<Rightarrow> nat option" where
  "Index [] sub = (if sub = [] then Some 0 else None)"
| "Index (c # cs) sub =
     (if prefix sub (c # cs) then Some 0 else map_option Suc (Index cs sub))"

section \<open>What the source leaves to its libraries\<close>

text \<open>
  The URL engine calls \<^verbatim>\<open>strings.ToLower\<close> and \<^verbatim>\<open>net/url\<close>. Three behaviours of theirs are
  not fixed by the source, which names no release of the Go toolchain:
  \<^item> \<open>unicode_lower\<close>: what \<^verbatim>\<open>strings.ToLower\<close> makes of a string that is not pure ASCII
    (the Unicode case tables);
  \<^item> \<open>refuses_host\<close>: the hosts that \<^verbatim>\<open>url.Parse\<close> refuses on top of the checks transcribed
    below. Releases differ here: later ones also refuse a bracketed host that is not an
    IPv6 literal, a bracket inside a host, and a colon that does not start the port;
  \<^item> \<open>refuses_query\<close>: the queries that \<^verbatim>\<open>URL.Query\<close> refuses to parse. Later releases
    refuse a query with more parameters than a limit (10000 unless the \<^verbatim>\<open>GODEBUG\<close> setting
    \<^verbatim>\<open>urlmaxqueryparams\<close> changes it).

  They are the fields of a parameter of the model, and nothing is assumed about them: a
  theorem stated for every such parameter holds for each release.
\<close>

record library =
  unicode_lower :: "string \<Rightarrow> string"
  refuses_host :: "string \<Rightarrow> bool"
  refuses_query :: "string \<Rightarrow> bool"

section \<open>Go's net/url package\<close>

text \<open>
  The URL engine is written on top of \<^verbatim>\<open>net/url\<close> of the Go standard library. The
  functions it reaches (\<^verbatim>\<open>Parse\<close>, \<^verbatim>\<open>URL.String\<close>, \<^verbatim>\<open>URL.Query\<close>, \<^verbatim>\<open>Values.Encode\<close> and what
  they call) are transcribed here from the library, function by function.
\<close>

record Userinfo =
  username :: string
  password :: string
  passwordSet :: bool

record URL =
  Scheme :: string
  Opaque :: string
  User :: "Userinfo option"
  Host :: string
  Path :: string
  RawPath :: string
  OmitHost :: bool
  ForceQuery :: bool
  RawQuery :: string
  Fragment :: string
  RawFragment :: string

definition emptyURL :: URL where
  "emptyURL = \<lparr>Scheme = [], Opaque = [], User = None, Host = [], Path = [], RawPath = [],
     OmitHost = False, ForceQuery = False, RawQuery = [], Fragment = [], RawFragment = []\<rparr>"

datatype encoding =
  encodePath | encodePathSegment | encodeHost | encodeZone | encodeUserPassword
  | encodeQueryComponent | encodeFragment

definition isAlpha :: "char \<Rightarrow> bool" where
  "isAlpha c = ((97 \<le> (of_char c :: nat) \<and> (of_char c :: nat) \<le> 122) \<or>
                (65 \<le> (of_char c :: nat) \<and> (of_char c :: nat) \<le> 90))"

definition ishex :: "char \<Rightarrow> bool" where
  "ishex c = (isDigit c \<or> (97 \<le> (of_char c :: nat) \<and> (of_char c :: nat) \<le> 102) \<or>
              (65 \<le> (of_char c :: nat) \<and> (of_char c :: nat) \<le> 70))"

definition unhex :: "char \<Rightarrow> nat" where
  "unhex c =
     (if isDigit c then of_char c - 48
      else if 97 \<le> (of_char c :: nat) \<and> (of_char c :: nat) \<le> 102 then of_char c - 97 + 10
      else if 65 \<le> (of_char c :: nat) \<and> (of_char c :: nat) \<le> 70 then of_char c - 65 + 10
      else 0)"

definition upperhex :: "nat \<Rightarrow> char" where
  "upperhex n = ''0123456789ABCDEF'' ! n"

definition shouldEscape :: "char \<Rightarrow> encoding \<Rightarrow> bool" where
  "shouldEscape c mode =
     (if isAlpha c \<or> isDigit c then False
      else if (mode = encodeHost \<or> mode = encodeZone) \<and> c \<in> set (''!$&'' @ [CHR 0x27] @ ''()*+,;=:[]<>'' @ [CHR 0x22])
      then False
      else if c \<in> set ''-_.~'' then False
      else if c \<in> set ''$&+,/:;=?@'' \<and> mode = encodePath then c = CHR ''?''
      else if c \<in> set ''$&+,/:;=?@'' \<and> mode = encodePathSegment
      then c = CHR ''/'' \<or> c = CHR '';'' \<or> c = CHR '','' \<or> c = CHR ''?''
      else if c \<in> set ''$&+,/:;=?@'' \<and> mode = encodeUserPassword
      then c = CHR ''@'' \<or> c = CHR ''/'' \<or> c = CHR ''?'' \<or> c = CHR '':''
      else if c \<in> set ''$&+,/:;=?@'' \<and> mode = encodeQueryComponent then True
      else if c \<in> set ''$&+,/:;=?@'' \<and> mode = encodeFragment then False
      else if mode = encodeFragment \<and> c \<in> set ''!()*'' then False
      else True)"

text \<open>
  \<^verbatim>\<open>unescape\<close>: the first pass checks every \<^verbatim>\<open>%\<close> for two hex digits after it, the host
  and zone restrictions on what may be escaped, and the bytes that may not stand in a
  host; the second pass decodes. An error is \<open>None\<close>.
\<close>

fun unescape_ok :: "string \<Rightarrow> encoding \<Rightarrow> bool" where
  "unescape_ok [] mode = True"
| "unescape_ok (c # cs) mode =
     (if c = CHR ''%'' then
        (case cs of
           a # b # rest \<Rightarrow>
             if \<not> ishex a \<or> \<not> ishex b then False
             else if mode = encodeHost \<and> unhex a < 8 \<and> [c, a, b] \<noteq> ''%25'' then False
             else if mode = encodeZone \<and> [c, a, b] \<noteq> ''%25'' \<and>
                     char_of (unhex a * 16 + unhex b) \<noteq> CHR '' '' \<and>
                     shouldEscape (char_of (unhex a * 16 + unhex b)) encodeHost then False
             else unescape_ok rest mode
         | _ \<Rightarrow> False)
      else if c = CHR ''+'' then unescape_ok cs mode
      else if (mode = encodeHost \<or> mode = encodeZone) \<and> (of_char c :: nat) < 128 \<and>
              shouldEscape c encodeHost then False
      else unescape_ok cs mode)"

fun unescape_build :: "string \<Rightarrow> encoding \<Rightarrow> string" where
  "unescape_build [] mode = []"
| "unescape_build (c # cs) mode =
     (if c = CHR ''%'' then
        (case cs of
           a # b # rest \<Rightarrow> char_of (unhex a * 16 + unhex b) # unescape_build rest mode
         | _ \<Rightarrow> [])
      else if c = CHR ''+'' then
        (if mode = encodeQueryComponent then CHR '' '' else CHR ''+'') # unescape_build cs mode
      else c # unescape_build cs mode)"

definition unescape :: "string \<Rightarrow> encoding \<Rightarrow> string option" where
  "unescape s mode = (if unescape_ok s mode then Some (unescape_build s mode) else None)"

definition escape_byte :: "encoding \<Rightarrow> char \<Rightarrow> string" where
  "escape_byte mode c =
     (if shouldEscape c mode then
        (if c = CHR '' '' \<and> mode = encodeQueryComponent then ''+''
         else [CHR ''%'', upperhex ((of_char c :: nat) div 16), upperhex ((of_char c :: nat) mod 16)])
      else [c])"

definition escape :: "string \<Rightarrow> encoding \<Rightarrow> string" where
  "escape s mode = concat (map (escape_byte mode) s)"

definition QueryUnescape :: "string \<Rightarrow> string option" where
  "QueryUnescape s = unescape s encodeQueryComponent"

definition QueryEscape :: "string \<Rightarrow> string" where
  "QueryEscape s = escape s encodeQueryComponent"

text \<open>
  \<^verbatim>\<open>getScheme\<close>: \<open>pre\<close> is the part of the input already read (\<^verbatim>\<open>rawURL[:i]\<close>). The result is
  the scheme and the rest, \<open>None\<close> for the error \<^verbatim>\<open>missing protocol scheme\<close>.
\<close>

fun getScheme_loop :: "string \<Rightarrow> string \<Rightarrow> string \<Rightarrow> (string \<times> string) option" where
  "getScheme_loop rawURL pre [] = Some ([], rawURL)"
| "getScheme_loop rawURL pre (c # cs) =
     (if isAlpha c then getScheme_loop rawURL (pre @ [c]) cs
      else if isDigit c \<or> c = CHR ''+'' \<or> c = CHR ''-'' \<or> c = CHR ''.'' then
        (if pre = [] then Some ([], rawURL) else getScheme_loop rawURL (pre @ [c]) cs)
      else if c = CHR '':'' then
        (if pre = [] then None else Some (pre, cs))
      else Some ([], rawURL))"

definition getScheme :: "string \<Rightarrow> (string \<times> string) option" where
  "getScheme rawURL = getScheme_loop rawURL [] rawURL"

definition stringContainsCTLByte :: "string \<Rightarrow> bool" where
  "stringContainsCTLByte s = list_ex (\<lambda>b. (of_char b :: nat) < 32 \<or> (of_char b :: nat) = 127) s"

definition validOptionalPort :: "string \<Rightarrow> bool" where
  "validOptionalPort port =
     (case port of
        [] \<Rightarrow> True
      | c # ds \<Rightarrow> c = CHR '':'' \<and> list_all isDigit ds)"

text \<open>\<^verbatim>\<open>validUserinfo\<close> ranges over runes; a byte \<open>\<ge> 0x80\<close> is part of a rune that matches
  none of the cases.\<close>

definition validUserinfo :: "string \<Rightarrow> bool" where
  "validUserinfo s =
     list_all (\<lambda>r. isAlpha r \<or> isDigit r \<or> r \<in> set (''-._:~!$&'' @ [CHR 0x27] @ ''()*+,;=%@'')) s"

text \<open>
  \<^verbatim>\<open>parseHost\<close>: bracketed IP literals with an optional zone, and the port check. The
  first test is the parameter: the hosts that the release at hand refuses beyond these.
\<close>

definition parseHost :: "(string \<Rightarrow> bool) \<Rightarrow> string \<Rightarrow> string option" where
  "parseHost refused host =
     (if refused host then None
      else if prefix ''['' host then
        (case LastIndexByte host (CHR '']'') of
           None \<Rightarrow> None
         | Some i \<Rightarrow>
             if \<not> validOptionalPort (drop (i + 1) host) then None
             else
               (case Index (take i host) ''%25'' of
                  Some zone \<Rightarrow>
                    (case unescape (take zone host) encodeHost of
                       None \<Rightarrow> None
                     | Some host1 \<Rightarrow>
                         (case unescape (drop zone (take i host)) encodeZone of
                            None \<Rightarrow> None
                          | Some host2 \<Rightarrow>
                              (case unescape (drop i host) encodeHost of
                                 None \<Rightarrow> None
                               | Some host3 \<Rightarrow> Some (host1 @ host2 @ host3))))
                | None \<Rightarrow> unescape host encodeHost))
      else
        (case LastIndexByte host (CHR '':'') of
           Some i \<Rightarrow>
             if \<not> validOptionalPort (drop i host) then None else unescape host encodeHost
         | None \<Rightarrow> unescape host encodeHost))"

definition parseAuthority ::
  "(string \<Rightarrow> bool) \<Rightarrow> string \<Rightarrow> (Userinfo option \<times> string) option" where
  "parseAuthority refused authority =
     (let i = LastIndexByte authority (CHR ''@'');
          hostr = (case i of None \<Rightarrow> parseHost refused authority
                   | Some k \<Rightarrow> parseHost refused (drop (k + 1) authority))
      in case hostr of
           None \<Rightarrow> None
         | Some host \<Rightarrow>
             (case i of
                None \<Rightarrow> Some (None, host)
              | Some k \<Rightarrow>
                  (let userinfo = take k authority
                   in if \<not> validUserinfo userinfo then None
                      else if CHR '':'' \<notin> set userinfo then
                        (case unescape userinfo encodeUserPassword of
                           None \<Rightarrow> None
                         | Some u \<Rightarrow>
                             Some (Some \<lparr>username = u, password = [], passwordSet = False\<rparr>, host))
                      else
                        (let (uname, pass, found) = Cut userinfo (CHR '':'')
                         in case unescape uname encodeUserPassword of
                              None \<Rightarrow> None
                            | Some u \<Rightarrow>
                                (case unescape pass encodeUserPassword of
                                   None \<Rightarrow> None
                                 | Some p \<Rightarrow>
                                     Some (Some \<lparr>username = u, password = p, passwordSet = True\<rparr>,
                                           host))))))"

definition setPath :: "URL \<Rightarrow> string \<Rightarrow> URL option" where
  "setPath u p =
     (case unescape p encodePath of
        None \<Rightarrow> None
      | Some path \<Rightarrow>
          Some (u\<lparr>Path := path, RawPath := (if p = escape path encodePath then [] else p)\<rparr>))"

definition setFragment :: "URL \<Rightarrow> string \<Rightarrow> URL option" where
  "setFragment u f =
     (case unescape f encodeFragment of
        None \<Rightarrow> None
      | Some frag \<Rightarrow>
          Some (u\<lparr>Fragment := frag,
                  RawFragment := (if f = escape frag encodeFragment then [] else f)\<rparr>))"

text \<open>The unexported \<^verbatim>\<open>parse(rawURL, viaRequest)\<close> with \<^verbatim>\<open>viaRequest = false\<close>.\<close>

definition parse :: "library \<Rightarrow> string \<Rightarrow> URL option" where
  "parse lib rawURL =
     (if stringContainsCTLByte rawURL then None
      else if rawURL = ''*'' then Some (emptyURL\<lparr>Path := ''*''\<rparr>)
      else
        (case getScheme rawURL of
           None \<Rightarrow> None
         | Some (scheme, rest0) \<Rightarrow>
             (let url0 = emptyURL\<lparr>Scheme := ToLower (unicode_lower lib) scheme\<rparr>;
                  (url1, rest) =
                    (if suffix ''?'' rest0 \<and> Count rest0 (CHR ''?'') = 1
                     then (url0\<lparr>ForceQuery := True\<rparr>, take (length rest0 - 1) rest0)
                     else (let (r, q, found) = Cut rest0 (CHR ''?'') in (url0\<lparr>RawQuery := q\<rparr>, r)))
              in if \<not> prefix ''/'' rest \<and> Scheme url1 \<noteq> [] then Some (url1\<lparr>Opaque := rest\<rparr>)
                 else if \<not> prefix ''/'' rest \<and> CHR '':'' \<in> set (fst (Cut rest (CHR ''/''))) then None
                 else if (Scheme url1 \<noteq> [] \<or> \<not> prefix ''///'' rest) \<and> prefix ''//'' rest then
                   (let authority0 = drop 2 rest;
                        (authority, rest') =
                          (case IndexByte authority0 (CHR ''/'') of
                             Some i \<Rightarrow> (take i authority0, drop i authority0)
                           | None \<Rightarrow> (authority0, []))
                    in case parseAuthority (refuses_host lib) authority of
                         None \<Rightarrow> None
                       | Some (user, host) \<Rightarrow> setPath (url1\<lparr>User := user, Host := host\<rparr>) rest')
                 else if Scheme url1 \<noteq> [] \<and> prefix ''/'' rest
                 then setPath (url1\<lparr>OmitHost := True\<rparr>) rest
                 else setPath url1 rest)))"

text \<open>\<^verbatim>\<open>url.Parse\<close>: the fragment is cut off first and set last.\<close>

definition Parse :: "library \<Rightarrow> string \<Rightarrow> URL option" where
  "Parse lib rawURL =
     (let (u, frag, found) = Cut rawURL (CHR ''#'')
      in case parse lib u of
           None \<Rightarrow> None
         | Some url \<Rightarrow> if frag = [] then Some url else setFragment url frag)"

definition validEncoded :: "string \<Rightarrow> encoding \<Rightarrow> bool" where
  "validEncoded s mode =
     list_all (\<lambda>c. c \<in> set (''!$&'' @ [CHR 0x27] @ ''()*+,;=:@[]%'') \<or> \<not> shouldEscape c mode) s"

definition EscapedPath :: "URL \<Rightarrow> string" where
  "EscapedPath u =
     (if RawPath u \<noteq> [] \<and> validEncoded (RawPath u) encodePath \<and>
         unescape (RawPath u) encodePath = Some (Path u) then RawPath u
      else if Path u = ''*'' then ''*''
      else escape (Path u) encodePath)"

definition EscapedFragment :: "URL \<Rightarrow> string" where
  "EscapedFragment u =
     (if RawFragment u \<noteq> [] \<and> validEncoded (RawFragment u) encodeFragment \<and>
         unescape (RawFragment u) encodeFragment = Some (Fragment u) then RawFragment u
      else escape (Fragment u) encodeFragment)"

definition Userinfo_String :: "Userinfo \<Rightarrow> string" where
  "Userinfo_String ui =
     escape (username ui) encodeUserPassword @
     (if passwordSet ui then '':'' @ escape (password ui) encodeUserPassword else [])"

text \<open>\<^verbatim>\<open>URL.String\<close>: the pieces are appended to the buffer in this order.\<close>

definition URL_String :: "URL \<Rightarrow> string" where
  "URL_String u =
     (let buf0 = (if Scheme u \<noteq> [] then Scheme u @ '':'' else []);
          buf1 =
            (if Opaque u \<noteq> [] then buf0 @ Opaque u
             else
               (let buf2 =
                      (if Scheme u \<noteq> [] \<or> Host u \<noteq> [] \<or> User u \<noteq> None then
                         (if OmitHost u \<and> Host u = [] \<and> User u = None then buf0
                          else
                            buf0 @
                            (if Host u \<noteq> [] \<or> Path u \<noteq> [] \<or> User u \<noteq> None then ''//'' else []) @
                            (case User u of None \<Rightarrow> [] | Some ui \<Rightarrow> Userinfo_String ui @ ''@'') @
                            (if Host u \<noteq> [] then escape (Host u) encodeHost else []))
                       else buf0);
                    path = EscapedPath u;
                    buf3 = (if path \<noteq> [] \<and> hd path \<noteq> CHR ''/'' \<and> Host u \<noteq> []
                            then buf2 @ ''/'' else buf2);
                    buf4 = (if buf3 = [] \<and> CHR '':'' \<in> set (fst (Cut path (CHR ''/'')))
                            then buf3 @ ''./'' else buf3)
                in buf4 @ path));
          buf5 = (if ForceQuery u \<or> RawQuery u \<noteq> [] then buf1 @ ''?'' @ RawQuery u else buf1)
      in if Fragment u \<noteq> [] then buf5 @ ''#'' @ EscapedFragment u else buf5)"

subsection \<open>Query values\<close>

text \<open>
  \<^verbatim>\<open>url.Values\<close> is a \<^verbatim>\<open>map[string][]string\<close>: here the list of its entries, one per key,
  in the order in which the keys were first added. \<^verbatim>\<open>Encode\<close> sorts the keys, so the
  order of the entries is not observable.
\<close>

type_synonym Values = "(string \<times> string list) list"

definition Values_append :: "Values \<Rightarrow> string \<Rightarrow> string \<Rightarrow> Values" where
  "Values_append m key v =
     (case map_of m key of
        None \<Rightarrow> m @ [(key, [v])]
      | Some vs \<Rightarrow> map (\<lambda>(k, xs). if k = key then (k, xs @ [v]) else (k, xs)) m)"

text \<open>
  One turn of the loop of \<^verbatim>\<open>parseQuery\<close>, on the piece \<open>key\<close> up to the next \<^verbatim>\<open>&\<close>: a
  piece with a semicolon, an empty piece and a piece whose key or value does not
  unescape are skipped (the error is dropped by \<^verbatim>\<open>URL.Query\<close>).
\<close>

definition parseQuery_step :: "Values \<Rightarrow> string \<Rightarrow> Values" where
  "parseQuery_step m key0 =
     (if CHR '';'' \<in> set key0 then m
      else if key0 = [] then m
      else
        (let (key, val, found) = Cut key0 (CHR ''='')
         in case QueryUnescape key of
              None \<Rightarrow> m
            | Some k \<Rightarrow>
                (case QueryUnescape val of
                   None \<Rightarrow> m
                 | Some v \<Rightarrow> Values_append m k v)))"

text \<open>The loop \<^verbatim>\<open>for query != "" { key, query, _ = strings.Cut(query, "&"); ... }\<close>.\<close>

function parseQuery_loop :: "Values \<Rightarrow> string \<Rightarrow> Values" where
  "parseQuery_loop m query =
     (if query = [] then m
      else (case Cut query (CHR ''&'') of
              (key, rest, found) \<Rightarrow> parseQuery_loop (parseQuery_step m key) rest))"
  by pat_completeness auto
termination
proof (relation "measure (\<lambda>(m, query). length query)")
  show "wf (measure (\<lambda>(m, query). length query))" by simp
next
  fix m :: Values and query key rest :: string and x :: "string \<times> bool" and found :: bool
  assume q: "query \<noteq> []" and c: "(key, x) = Cut query (CHR ''&'')" and x: "(rest, found) = x"
  have "length rest < length query"
  proof (cases "CHR ''&'' \<in> set query")
    case True
    then have "rest = tl (dropWhile (\<lambda>c. c \<noteq> CHR ''&'') query)"
      using c x by (simp add: Cut_def)
    moreover have "dropWhile (\<lambda>c. c \<noteq> CHR ''&'') query \<noteq> []"
      using True by simp
    ultimately have "length rest < length (dropWhile (\<lambda>c. c \<noteq> CHR ''&'') query)"
      by simp
    also have "\<dots> \<le> length query" by (rule length_dropWhile_le)
    finally show ?thesis .
  next
    case False
    then have "rest = []" using c x by (simp add: Cut_def)
    with q show ?thesis by simp
  qed
  then show "((parseQuery_step m key, rest), (m, query)) \<in> measure (\<lambda>(m, query). length query)"
    by simp
qed

declare parseQuery_loop.simps [simp del]

definition parseQuery :: "string \<Rightarrow> Values" where
  "parseQuery query = parseQuery_loop [] query"

text \<open>
  \<^verbatim>\<open>URL.Query\<close> parses \<^verbatim>\<open>RawQuery\<close> and drops the error. A query that the release at
  hand refuses (the parameter) gives no values at all: \<^verbatim>\<open>parseQuery\<close> returns its error
  before it reads the first pair.
\<close>

definition Query :: "(string \<Rightarrow> bool) \<Rightarrow> URL \<Rightarrow> Values" where
  "Query refused u = (if refused (RawQuery u) then [] else parseQuery (RawQuery u))"

text \<open>\<^verbatim>\<open>strings.Join(pieces, "&")\<close>.\<close>

fun join_amp :: "string list \<Rightarrow> string" where
  "join_amp [] = []"
| "join_amp [p] = p"
| "join_amp (p # q # ps) = p @ ''&'' @ join_amp (q # ps)"

text \<open>
  \<^verbatim>\<open>Values.Encode\<close>: the keys are sorted (Go compares strings bytewise), and every value
  of a key is written as \<^verbatim>\<open>key=value\<close>, both query-escaped, with \<^verbatim>\<open>&\<close> between the pairs.
\<close>

definition Encode :: "Values \<Rightarrow> string" where
  "Encode v =
     join_amp
       (concat (map (\<lambda>k. map (\<lambda>x. QueryEscape k @ ''='' @ QueryEscape x)
                           (case map_of v k of None \<Rightarrow> [] | Some vs \<Rightarrow> vs))
                    (sort (map fst v))))"

section \<open>The URL cleanup engine (internal/adapters/http/handler.go)\<close>

definition needsWWW :: "string \<Rightarrow> bool" where
  "needsWWW host = (if prefix ''www.'' host then False else Count host (CHR ''.'') = 1)"

definition cloneURL :: "URL \<Rightarrow> URL" where
  "cloneURL u = u"

definition applyRedirection :: "library \<Rightarrow> URL \<Rightarrow> string" where
  "applyRedirection lib u =
     (let host0 = ToLower (unicode_lower lib) (Host u);
          host =
            (case IndexByte host0 (CHR '':'') of
               Some idx \<Rightarrow>
                 (let hostOnly0 = take idx host0;
                      hostOnly = (if needsWWW hostOnly0 then ''www.'' @ hostOnly0 else hostOnly0)
                  in hostOnly @ drop idx host0)
             | None \<Rightarrow> if needsWWW host0 then ''www.'' @ host0 else host0);
          path = TrimSuffix (ToLower (unicode_lower lib) (Path u)) ''/'';
          q = map (\<lambda>(k, vals). (k, map (\<lambda>v. TrimSuffix v ''/'') vals))
                (Query (refuses_query lib) u)
      in URL_String (u\<lparr>Host := host, Path := path, RawQuery := Encode q, Fragment := []\<rparr>))"

text \<open>The errors are the messages of the \<^verbatim>\<open>fmt.Errorf\<close> calls.\<close>

definition processURL :: "library \<Rightarrow> string \<Rightarrow> string \<Rightarrow> string + string" where
  "processURL lib op raw =
     (case Parse lib raw of
        None \<Rightarrow> Inl ''invalid url''
      | Some u \<Rightarrow>
          if Scheme u = [] \<or> Host u = [] then Inl ''invalid url''
          else if op = ''canonical'' then
            Inr (URL_String (u\<lparr>RawQuery := [], Fragment := [], Path := TrimSuffix (Path u) ''/''\<rparr>))
          else if op = ''redirection'' then Inr (applyRedirection lib u)
          else if op = ''all'' then
            (let redir = applyRedirection lib (cloneURL u)
             in case Parse lib redir of
                  None \<Rightarrow> Inl ''unexpected parse error''
                | Some u2 \<Rightarrow> Inr (URL_String (u2\<lparr>RawQuery := [], Fragment := []\<rparr>)))
          else Inl ''invalid operation (use: redirection|canonical|all)'')"

section \<open>Auxiliary notions for the URL engine\<close>

text \<open>
  The instance of the library parameter used by the evaluations below. They are on
  inputs on which the releases agree: plain domain names and an IPv6 literal with a zone
  as hosts, at most two query parameters, and no upper-case letter outside ASCII (and
  \<^verbatim>\<open>strings.ToLower\<close> returns a string without upper-case letters as it is). So the
  instance changes no string and refuses nothing.
\<close>

definition plain_library :: library where
  "plain_library =
     \<lparr>unicode_lower = (\<lambda>s. s), refuses_host = (\<lambda>h. False), refuses_query = (\<lambda>q. False)\<rparr>"

text \<open>The input parses into a URL with a scheme and a host.\<close>

definition parses_with_scheme_and_host :: "library \<Rightarrow> string \<Rightarrow> bool" where
  "parses_with_scheme_and_host lib raw =
     (case Parse lib raw of None \<Rightarrow> False | Some u \<Rightarrow> Scheme u \<noteq> [] \<and> Host u \<noteq> [])"

text \<open>The string that the redirection step makes of the input parses again.\<close>

definition redirection_reparses :: "library \<Rightarrow> string \<Rightarrow> bool" where
  "redirection_reparses lib raw =
     (case Parse lib raw of
        None \<Rightarrow> False
      | Some u \<Rightarrow> Parse lib (applyRedirection lib (cloneURL u)) \<noteq> None)"

text \<open>An example host with an IPv6 zone that has a non-ASCII letter (U+00E9) in it.\<close>

definition zone_url :: string where
  "zone_url = ''http://[fe80::1%25'' @ [CHR 0xC3, CHR 0xA9] @ '']/x''"

section \<open>Lemmas: ISBN checksums\<close>

lemma isbn10_loop_sum:
  "i \<le> 9 \<Longrightarrow> isbn10_loop s i acc = acc + (\<Sum>k = i..<9. (10 - int k) * byte_sub (s ! k) (CHR ''0''))"
proof (induction s i acc rule: isbn10_loop.induct)
  case (1 s i acc)
  show ?case
  proof (cases "i < 9")
    case True
    with "1" show ?thesis
      by (subst isbn10_loop.simps) (simp add: sum.atLeast_Suc_lessThan add.assoc)
  next
    case False
    then show ?thesis by (subst isbn10_loop.simps) simp
  qed
qed

lemma isbn13_loop_sum:
  "i \<le> 12 \<Longrightarrow> isbn13_loop s i acc =
     acc + (\<Sum>k = i..<12. byte_sub (s ! k) (CHR ''0'') * (if even k then 1 else 3))"
proof (induction s i acc rule: isbn13_loop.induct)
  case (1 s i acc)
  show ?case
  proof (cases "i < 12")
    case True
    with "1" show ?thesis
      by (subst isbn13_loop.simps) (simp add: sum.atLeast_Suc_lessThan add.assoc Let_def even_iff_mod_2_eq_zero)
  next
    case False
    then show ?thesis by (subst isbn13_loop.simps) simp
  qed
qed

lemma byte_sub_digit: "isDigit c \<Longrightarrow> byte_sub c (CHR ''0'') = spec_digit c"
proof -
  assume d: "isDigit c"
  define n :: nat where "n = of_char c"
  from d have "48 \<le> n" "n \<le> 57" by (simp_all add: isDigit_def n_def)
  then have e: "n + 256 - 48 = (n - 48) + 256" and l: "n - 48 < 256" by simp_all
  have "(n + 256 - 48) mod 256 = ((n - 48) + 256) mod 256" by (simp only: e)
  also have "\<dots> = (n - 48) mod 256" by (rule mod_add_self2)
  also have "\<dots> = n - 48" using l by (rule mod_less)
  finally have "(n + 256 - 48) mod 256 = n - 48" .
  with \<open>48 \<le> n\<close> have "int ((n + 256 - 48) mod 256) = int n - 48" by simp
  then show ?thesis by (simp add: byte_sub_def spec_digit_def n_def)
qed

lemma spec_digit_range: "isDigit c \<Longrightarrow> 0 \<le> spec_digit c \<and> spec_digit c \<le> 9"
  by (simp add: isDigit_def spec_digit_def)

lemma spec_digit_inj: "isDigit c \<Longrightarrow> isDigit d \<Longrightarrow> spec_digit c = spec_digit d \<Longrightarrow> c = d"
  by (simp add: isDigit_def spec_digit_def)

lemma list_all_take_nth:
  "k \<le> length xs \<Longrightarrow> list_all P (take k xs) = (\<forall>i\<in>{0..<k}. P (xs ! i))"
  by (auto simp: list_all_length)

lemma reIsbn10_iff:
  "reIsbn10 n = (length n = 10 \<and> (\<forall>i\<in>{0..<9}. isDigit (n ! i)) \<and> (isDigit (n ! 9) \<or> n ! 9 = CHR ''X''))"
  unfolding reIsbn10_def by (auto simp: list_all_take_nth)

lemma reIsbn13_iff:
  "reIsbn13 n = (length n = 13 \<and> (\<forall>i\<in>{0..<13}. isDigit (n ! i)))"
  unfolding reIsbn13_def using list_all_take_nth [of 13 n isDigit] by auto

lemma isValidISBN10_sum:
  "isValidISBN10 n =
     (reIsbn10 n \<and>
      ((\<Sum>k = 0..<9. (10 - int k) * byte_sub (n ! k) (CHR ''0'')) +
        (if n ! 9 = CHR ''X'' then 10 else byte_sub (n ! 9) (CHR ''0''))) mod 11 = 0)"
proof -
  have "isbn10_loop n 0 0 = (\<Sum>k = 0..<9. (10 - int k) * byte_sub (n ! k) (CHR ''0''))"
    using isbn10_loop_sum [of 0 n 0] by simp
  then show ?thesis
    unfolding isValidISBN10_def Let_def by auto
qed

lemma isValidISBN13_sum:
  "isValidISBN13 n =
     (reIsbn13 n \<and>
      (10 - ((\<Sum>k = 0..<12. byte_sub (n ! k) (CHR ''0'') * (if even k then 1 else 3)) mod 10)) mod 10
        = byte_sub (n ! 12) (CHR ''0''))"
proof -
  have "isbn13_loop n 0 0 = (\<Sum>k = 0..<12. byte_sub (n ! k) (CHR ''0'') * (if even k then 1 else 3))"
    using isbn13_loop_sum [of 0 n 0] by simp
  then show ?thesis
    unfolding isValidISBN13_def Let_def by auto
qed

lemma isValidISBN10_spec: "isValidISBN10 n = spec_isbn10 n"
proof (cases "reIsbn10 n")
  case False
  then show ?thesis
    unfolding isValidISBN10_sum spec_isbn10_def reIsbn10_iff by blast
next
  case True
  then have dig: "\<And>i. i < 9 \<Longrightarrow> isDigit (n ! i)" and len: "length n = 10"
    and lastc: "isDigit (n ! 9) \<or> n ! 9 = CHR ''X''"
    by (auto simp: reIsbn10_iff)
  have s: "(\<Sum>k = 0..<9. (10 - int k) * byte_sub (n ! k) (CHR ''0'')) =
           (\<Sum>i = 0..<9. (10 - int i) * spec_digit (n ! i))"
    by (rule sum.cong) (auto simp: byte_sub_digit dig)
  have l: "(if n ! 9 = CHR ''X'' then 10 else byte_sub (n ! 9) (CHR ''0'')) =
           (if n ! 9 = CHR ''X'' then 10 else spec_digit (n ! 9))"
    using lastc by (auto simp: byte_sub_digit)
  have "spec_isbn10 n = (reIsbn10 n \<and>
      ((\<Sum>i = 0..<9. (10 - int i) * spec_digit (n ! i)) +
         (if n ! 9 = CHR ''X'' then 10 else spec_digit (n ! 9))) mod 11 = 0)"
    unfolding spec_isbn10_def reIsbn10_iff by blast
  then show ?thesis
    unfolding isValidISBN10_sum s l by simp
qed

lemma isValidISBN13_spec: "isValidISBN13 n = spec_isbn13 n"
proof (cases "reIsbn13 n")
  case False
  then show ?thesis
    unfolding isValidISBN13_sum spec_isbn13_def reIsbn13_iff by blast
next
  case True
  then have dig: "\<And>i. i < 13 \<Longrightarrow> isDigit (n ! i)" and len: "length n = 13"
    by (auto simp: reIsbn13_iff)
  have s: "(\<Sum>k = 0..<12. byte_sub (n ! k) (CHR ''0'') * (if even k then 1 else 3)) =
           (\<Sum>i = 0..<12. spec_digit (n ! i) * (if even i then 1 else 3))"
    by (rule sum.cong) (auto simp: byte_sub_digit dig)
  have l: "byte_sub (n ! 12) (CHR ''0'') = spec_digit (n ! 12)"
    using dig [of 12] by (simp add: byte_sub_digit)
  have "spec_isbn13 n = (reIsbn13 n \<and> spec_digit (n ! 12) =
        (10 - ((\<Sum>i = 0..<12. spec_digit (n ! i) * (if even i then 1 else 3)) mod 10)) mod 10)"
    unfolding spec_isbn13_def reIsbn13_iff by blast
  then show ?thesis
    unfolding isValidISBN13_sum s l by auto
qed


lemma sum_list_update:
  fixes w :: "nat \<Rightarrow> int"
  assumes "i < n" "n \<le> length s"
  shows "(\<Sum>k = 0..<n. w k * spec_digit (s[i := d] ! k)) =
         (\<Sum>k = 0..<n. w k * spec_digit (s ! k)) + w i * (spec_digit d - spec_digit (s ! i))"
proof -
  have fin: "finite {0..<n}" and mem: "i \<in> {0..<n}" using assms by simp_all
  have rest: "(\<Sum>k \<in> {0..<n} - {i}. w k * spec_digit (s[i := d] ! k)) =
              (\<Sum>k \<in> {0..<n} - {i}. w k * spec_digit (s ! k))"
    by (rule sum.cong) auto
  have "(\<Sum>k = 0..<n. w k * spec_digit (s[i := d] ! k)) =
        w i * spec_digit (s[i := d] ! i) + (\<Sum>k \<in> {0..<n} - {i}. w k * spec_digit (s[i := d] ! k))"
    by (rule sum.remove [OF fin mem])
  moreover have "(\<Sum>k = 0..<n. w k * spec_digit (s ! k)) =
        w i * spec_digit (s ! i) + (\<Sum>k \<in> {0..<n} - {i}. w k * spec_digit (s ! k))"
    by (rule sum.remove [OF fin mem])
  moreover have "s[i := d] ! i = d" using assms by simp
  ultimately show ?thesis using rest by (simp add: algebra_simps)
qed

lemma sum_list_update_outside:
  fixes w :: "nat \<Rightarrow> int"
  assumes "n \<le> i"
  shows "(\<Sum>k = 0..<n. w k * spec_digit (s[i := d] ! k)) = (\<Sum>k = 0..<n. w k * spec_digit (s ! k))"
  by (rule sum.cong) (use assms in auto)

lemma mod11_detect:
  fixes A a b w :: int
  assumes "(A + w * a) mod 11 = 0" "(A + w * b) mod 11 = 0"
    and "1 \<le> w" "w \<le> 10" "0 \<le> a" "a \<le> 9" "0 \<le> b" "b \<le> 9"
  shows "a = b"
proof -
  define c where "c = a - b"
  have "11 dvd (A + w * a) - (A + w * b)"
    using assms(1,2) by (intro dvd_diff) (simp_all add: dvd_eq_mod_eq_0)
  then have dv: "11 dvd w * c" by (simp add: c_def algebra_simps)
  have cr: "- 9 \<le> c" "c \<le> 9" using assms(5-8) by (simp_all add: c_def)
  have "w = 1 \<or> w = 2 \<or> w = 3 \<or> w = 4 \<or> w = 5 \<or> w = 6 \<or> w = 7 \<or> w = 8 \<or> w = 9 \<or> w = 10"
    using assms(3,4) by presburger
  then have "c = 0"
  proof (elim disjE)
    assume "w = 1" with dv cr show ?thesis by simp presburger
  next
    assume "w = 2" with dv cr show ?thesis by simp presburger
  next
    assume "w = 3" with dv cr show ?thesis by simp presburger
  next
    assume "w = 4" with dv cr show ?thesis by simp presburger
  next
    assume "w = 5" with dv cr show ?thesis by simp presburger
  next
    assume "w = 6" with dv cr show ?thesis by simp presburger
  next
    assume "w = 7" with dv cr show ?thesis by simp presburger
  next
    assume "w = 8" with dv cr show ?thesis by simp presburger
  next
    assume "w = 9" with dv cr show ?thesis by simp presburger
  next
    assume "w = 10" with dv cr show ?thesis by simp presburger
  qed
  then show ?thesis by (simp add: c_def)
qed

lemma mod10_detect:
  fixes A a b w :: int
  assumes "(A + w * a) mod 10 = 0" "(A + w * b) mod 10 = 0"
    and "w = 1 \<or> w = 3" "0 \<le> a" "a \<le> 9" "0 \<le> b" "b \<le> 9"
  shows "a = b"
proof -
  define c where "c = a - b"
  have "10 dvd (A + w * a) - (A + w * b)"
    using assms(1,2) by (intro dvd_diff) (simp_all add: dvd_eq_mod_eq_0)
  then have dv: "10 dvd w * c" by (simp add: c_def algebra_simps)
  have cr: "- 9 \<le> c" "c \<le> 9" using assms(4-7) by (simp_all add: c_def)
  from assms(3) have "c = 0"
  proof (elim disjE)
    assume "w = 1" with dv cr show ?thesis by simp presburger
  next
    assume "w = 3" with dv cr show ?thesis by simp presburger
  qed
  then show ?thesis by (simp add: c_def)
qed

lemma check13_iff:
  fixes S d :: int
  assumes "0 \<le> d" "d \<le> 9"
  shows "(d = (10 - S mod 10) mod 10) = ((S + d) mod 10 = 0)"
proof -
  define t where "t = S mod 10"
  have t: "0 \<le> t" "t < 10" by (simp_all add: t_def)
  have "(S + d) mod 10 = (t + d) mod 10" unfolding t_def by (simp add: mod_add_left_eq)
  moreover have "(d = (10 - t) mod 10) = ((t + d) mod 10 = 0)"
  proof (cases "t = 0")
    case True
    with assms show ?thesis by auto
  next
    case False
    have a: "(10 - t) mod 10 = 10 - t"
      by (rule mod_pos_pos_trivial) (use t False in auto)
    show ?thesis
    proof (cases "t + d < 10")
      case True
      have "(t + d) mod 10 = t + d"
        by (rule mod_pos_pos_trivial) (use t assms True in auto)
      then show ?thesis unfolding a using t assms False True by auto
    next
      case ge: False
      have "(t + d - 10) mod 10 = t + d - 10"
        by (rule mod_pos_pos_trivial) (use t assms ge in auto)
      moreover have "(t + d - 10) mod 10 = (t + d) mod 10"
        by (rule minus_mod_self2)
      ultimately have "(t + d) mod 10 = t + d - 10" by simp
      then show ?thesis unfolding a using t assms False ge by auto
    qed
  qed
  ultimately show ?thesis by (simp add: t_def)
qed

lemma isValidISBN13_mod:
  "isValidISBN13 n =
     (reIsbn13 n \<and>
      ((\<Sum>i = 0..<12. (if even i then 1 else 3) * spec_digit (n ! i)) + spec_digit (n ! 12)) mod 10 = 0)"
proof (cases "reIsbn13 n")
  case False
  then show ?thesis unfolding isValidISBN13_spec spec_isbn13_def reIsbn13_iff by blast
next
  case True
  then have "isDigit (n ! 12)" by (simp add: reIsbn13_iff)
  then have r: "0 \<le> spec_digit (n ! 12)" "spec_digit (n ! 12) \<le> 9"
    using spec_digit_range by blast+
  define S where "S = (\<Sum>i = 0..<12. (if even i then 1 else 3) * spec_digit (n ! i))"
  have S': "(\<Sum>i = 0..<12. spec_digit (n ! i) * (if even i then 1 else 3)) = S"
    unfolding S_def by (rule sum.cong) (auto simp: mult.commute)
  have "spec_isbn13 n = (spec_digit (n ! 12) = (10 - S mod 10) mod 10)"
    using True unfolding spec_isbn13_def S' reIsbn13_iff by blast
  then have "spec_isbn13 n = ((S + spec_digit (n ! 12)) mod 10 = 0)"
    using check13_iff [OF r] by simp
  then show ?thesis using True unfolding isValidISBN13_spec S_def by simp
qed

lemma isValidISBN10_mod:
  "isValidISBN10 n =
     (reIsbn10 n \<and>
      ((\<Sum>i = 0..<9. (10 - int i) * spec_digit (n ! i)) +
         (if n ! 9 = CHR ''X'' then 10 else spec_digit (n ! 9))) mod 11 = 0)"
  unfolding isValidISBN10_spec spec_isbn10_def reIsbn10_iff by blast

lemma nth_update_digit:
  "isDigit d \<Longrightarrow> isDigit (s ! k) \<Longrightarrow> isDigit (s[i := d] ! k)"
  by (cases "i < length s") (simp_all add: nth_list_update list_update_beyond)

lemma nth_update_digit_or_X:
  "isDigit d \<Longrightarrow> isDigit (s ! k) \<or> s ! k = CHR ''X'' \<Longrightarrow>
   isDigit (s[i := d] ! k) \<or> s[i := d] ! k = CHR ''X''"
  by (cases "i < length s") (auto simp: nth_list_update list_update_beyond)

lemma reIsbn10_update:
  "reIsbn10 s \<Longrightarrow> isDigit d \<Longrightarrow> reIsbn10 (s[i := d])"
  unfolding reIsbn10_iff using nth_update_digit nth_update_digit_or_X by simp

lemma reIsbn13_update:
  "reIsbn13 s \<Longrightarrow> isDigit d \<Longrightarrow> reIsbn13 (s[i := d])"
  unfolding reIsbn13_iff using nth_update_digit by simp

lemma not_digit_X: "\<not> isDigit (CHR ''X'')"
  by (simp add: isDigit_def)

lemma isbn10_single_digit:
  assumes v: "isValidISBN10 s" and i: "i < 10" and si: "isDigit (s ! i)"
    and d: "isDigit d" and ne: "d \<noteq> s ! i"
  shows "\<not> isValidISBN10 (s[i := d])"
proof
  assume v': "isValidISBN10 (s[i := d])"
  from v have re: "reIsbn10 s" unfolding isValidISBN10_mod by blast
  then have len: "length s = 10" by (simp add: reIsbn10_iff)
  define S where "S = (\<Sum>k = 0..<9. (10 - int k) * spec_digit (s ! k))"
  define L where "L = (if s ! 9 = CHR ''X'' then 10 else spec_digit (s ! 9))"
  from v have m: "(S + L) mod 11 = 0" unfolding isValidISBN10_mod S_def L_def by blast
  from v' have m': "((\<Sum>k = 0..<9. (10 - int k) * spec_digit (s[i := d] ! k)) +
      (if s[i := d] ! 9 = CHR ''X'' then 10 else spec_digit (s[i := d] ! 9))) mod 11 = 0"
    unfolding isValidISBN10_mod by blast
  have ra: "0 \<le> spec_digit (s ! i)" "spec_digit (s ! i) \<le> 9"
    and rb: "0 \<le> spec_digit d" "spec_digit d \<le> 9"
    using spec_digit_range si d by blast+
  have neq: "spec_digit d \<noteq> spec_digit (s ! i)"
    using spec_digit_inj [OF d si] ne by blast
  show False
  proof (cases "i < 9")
    case True
    have e1: "(\<Sum>k = 0..<9. (10 - int k) * spec_digit (s[i := d] ! k)) =
          S + (10 - int i) * (spec_digit d - spec_digit (s ! i))"
      unfolding S_def using sum_list_update [of i 9 s "\<lambda>k. 10 - int k" d] True len by simp
    have e2: "s[i := d] ! 9 = s ! 9" using True by simp
    from m' have "(S + (10 - int i) * (spec_digit d - spec_digit (s ! i)) + L) mod 11 = 0"
      unfolding e1 e2 L_def .
    then have a: "((S + L - (10 - int i) * spec_digit (s ! i)) + (10 - int i) * spec_digit d) mod 11 = 0"
      by (simp add: algebra_simps)
    have b: "((S + L - (10 - int i) * spec_digit (s ! i)) + (10 - int i) * spec_digit (s ! i)) mod 11 = 0"
      using m by simp
    have w: "1 \<le> 10 - int i" "10 - int i \<le> 10" using True by simp_all
    have "spec_digit d = spec_digit (s ! i)"
      by (rule mod11_detect [OF a b w rb ra])
    with neq show False by simp
  next
    case False
    with i have i9: "i = 9" by simp
    have sx: "s ! 9 \<noteq> CHR ''X''" using si i9 not_digit_X by auto
    have dx: "d \<noteq> CHR ''X''" using d not_digit_X by auto
    have e1: "(\<Sum>k = 0..<9. (10 - int k) * spec_digit (s[i := d] ! k)) = S"
      unfolding S_def using sum_list_update_outside [of 9 i "\<lambda>k. 10 - int k" s d] i9 by simp
    have e2: "s[i := d] ! 9 = d" using i9 len by simp
    from m' have "(S + (if d = CHR ''X'' then 10 else spec_digit d)) mod 11 = 0"
      unfolding e1 e2 .
    with dx have a: "(S + 1 * spec_digit d) mod 11 = 0" by simp
    have b: "(S + 1 * spec_digit (s ! i)) mod 11 = 0"
      using m sx i9 by (simp add: L_def)
    have "spec_digit d = spec_digit (s ! i)"
      by (rule mod11_detect [OF a b _ _ rb ra]) simp_all
    with neq show False by simp
  qed
qed

lemma isbn13_single_digit:
  assumes v: "isValidISBN13 s" and i: "i < 13" and d: "isDigit d" and ne: "d \<noteq> s ! i"
  shows "\<not> isValidISBN13 (s[i := d])"
proof
  assume v': "isValidISBN13 (s[i := d])"
  from v have re: "reIsbn13 s" unfolding isValidISBN13_mod by blast
  then have len: "length s = 13" by (simp add: reIsbn13_iff)
  from re i have si: "isDigit (s ! i)" by (simp add: reIsbn13_iff)
  define w :: "nat \<Rightarrow> int" where "w = (\<lambda>k. if even k then 1 else 3)"
  define S where "S = (\<Sum>k = 0..<12. w k * spec_digit (s ! k))"
  from v have m: "(S + spec_digit (s ! 12)) mod 10 = 0"
    unfolding isValidISBN13_mod S_def w_def by blast
  from v' have m': "((\<Sum>k = 0..<12. w k * spec_digit (s[i := d] ! k)) + spec_digit (s[i := d] ! 12)) mod 10 = 0"
    unfolding isValidISBN13_mod w_def by blast
  have ra: "0 \<le> spec_digit (s ! i)" "spec_digit (s ! i) \<le> 9"
    and rb: "0 \<le> spec_digit d" "spec_digit d \<le> 9"
    using spec_digit_range si d by blast+
  have neq: "spec_digit d \<noteq> spec_digit (s ! i)"
    using spec_digit_inj [OF d si] ne by blast
  show False
  proof (cases "i < 12")
    case True
    have e1: "(\<Sum>k = 0..<12. w k * spec_digit (s[i := d] ! k)) =
          S + w i * (spec_digit d - spec_digit (s ! i))"
      unfolding S_def using sum_list_update [of i 12 s w d] True len by simp
    have e2: "s[i := d] ! 12 = s ! 12" using True by simp
    from m' have "(S + w i * (spec_digit d - spec_digit (s ! i)) + spec_digit (s ! 12)) mod 10 = 0"
      unfolding e1 e2 .
    then have a: "((S + spec_digit (s ! 12) - w i * spec_digit (s ! i)) + w i * spec_digit d) mod 10 = 0"
      by (simp add: algebra_simps)
    have b: "((S + spec_digit (s ! 12) - w i * spec_digit (s ! i)) + w i * spec_digit (s ! i)) mod 10 = 0"
      using m by simp
    have wi: "w i = 1 \<or> w i = 3" by (simp add: w_def)
    have "spec_digit d = spec_digit (s ! i)"
      by (rule mod10_detect [OF a b wi rb ra])
    with neq show False by simp
  next
    case False
    with i have i12: "i = 12" by simp
    have e1: "(\<Sum>k = 0..<12. w k * spec_digit (s[i := d] ! k)) = S"
      unfolding S_def using sum_list_update_outside [of 12 i w s d] i12 by simp
    have e2: "s[i := d] ! 12 = d" using i12 len by simp
    from m' have "(S + spec_digit d) mod 10 = 0" unfolding e1 e2 .
    then have a: "(S + 1 * spec_digit d) mod 10 = 0" by simp
    have b: "(S + 1 * spec_digit (s ! i)) mod 10 = 0"
      using m i12 by simp
    have "spec_digit d = spec_digit (s ! i)"
      by (rule mod10_detect [OF a b _ rb ra]) simp
    with neq show False by simp
  qed
qed

lemma digitX_props:
  "isDigit c \<or> c = CHR ''X'' \<Longrightarrow>
   c \<noteq> CHR '' '' \<and> c \<noteq> CHR ''-'' \<and> is_ascii c \<and> upper_byte c = c"
  by (auto simp: isDigit_def is_ascii_def upper_byte_def)

lemma normalizeISBN_candidate:
  assumes "\<forall>c\<in>set s. isDigit c \<or> c = CHR ''X''"
  shows "normalizeISBN uni s = s"
proof -
  have f1: "filter (\<lambda>c. c \<noteq> CHR '' '') s = s"
    using assms digitX_props by (intro filter_True) blast
  have f2: "filter (\<lambda>c. c \<noteq> CHR ''-'') s = s"
    using assms digitX_props by (intro filter_True) blast
  have a: "list_all is_ascii s"
    using assms digitX_props by (auto simp: list_all_iff)
  have m: "map upper_byte s = s"
    using assms digitX_props by (intro map_idI) blast
  show ?thesis
    by (simp add: normalizeISBN_def ReplaceAll_empty_def ToUpper_def f1 f2 a m)
qed

lemma reIsbn10_chars: "reIsbn10 s \<Longrightarrow> \<forall>c\<in>set s. isDigit c \<or> c = CHR ''X''"
proof
  fix c assume re: "reIsbn10 s" and "c \<in> set s"
  then obtain k where k: "k < 10" "c = s ! k"
    by (auto simp: in_set_conv_nth reIsbn10_iff)
  show "isDigit c \<or> c = CHR ''X''"
  proof (cases "k < 9")
    case True
    then show ?thesis using re k by (simp add: reIsbn10_iff)
  next
    case False
    with k have "k = 9" by simp
    then show ?thesis using re k by (simp add: reIsbn10_iff)
  qed
qed

lemma reIsbn13_chars: "reIsbn13 s \<Longrightarrow> \<forall>c\<in>set s. isDigit c \<or> c = CHR ''X''"
  by (auto simp: reIsbn13_def list_all_iff)

lemma isValidISBN_candidate10: "reIsbn10 s \<Longrightarrow> isValidISBN uni s = isValidISBN10 s"
  using normalizeISBN_candidate [OF reIsbn10_chars, of s uni]
  by (simp add: isValidISBN_def reIsbn10_iff)

lemma isValidISBN_candidate13: "reIsbn13 s \<Longrightarrow> isValidISBN uni s = isValidISBN13 s"
  using normalizeISBN_candidate [OF reIsbn13_chars, of s uni]
  by (simp add: isValidISBN_def reIsbn13_iff)

lemma isValidISBN10_re: "isValidISBN10 s \<Longrightarrow> reIsbn10 s"
  unfolding isValidISBN10_mod by blast

lemma isValidISBN13_re: "isValidISBN13 s \<Longrightarrow> reIsbn13 s"
  unfolding isValidISBN13_mod by blast

lemma example_isbn10: "isValidISBN10 ''0306406152''"
  by (simp add: isValidISBN10_def reIsbn10_def isDigit_def byte_sub_def Let_def isbn10_loop.simps)

lemma example_isbn13: "isValidISBN13 ''9780306406157''"
  by (simp add: isValidISBN13_def reIsbn13_def isDigit_def byte_sub_def Let_def isbn13_loop.simps)

section \<open>Lemmas: trimming\<close>

lemma space_seqs_nonempty: "p \<in> set space_seqs \<Longrightarrow> p \<noteq> []"
  by (auto simp: space_seqs_def)

lemma strip_leading_no_prefix:
  "p \<in> set ps \<Longrightarrow> p \<noteq> [] \<Longrightarrow> \<not> prefix p (strip_leading ps s)"
proof (induction ps s rule: strip_leading.induct)
  case (1 ps s)
  show ?case
  proof (cases "find (\<lambda>p. p \<noteq> [] \<and> prefix p s) ps")
    case None
    then have "\<not> prefix p s" using "1.prems" by (auto simp: find_None_iff)
    with None show ?thesis by (subst strip_leading.simps) simp
  next
    case (Some q)
    with "1" show ?thesis by (subst strip_leading.simps) simp
  qed
qed

lemma strip_leading_suffix: "suffix (strip_leading ps s) s"
proof (induction ps s rule: strip_leading.induct)
  case (1 ps s)
  show ?case
  proof (cases "find (\<lambda>p. p \<noteq> [] \<and> prefix p s) ps")
    case None
    then show ?thesis by (subst strip_leading.simps) simp
  next
    case (Some q)
    then have "suffix (strip_leading ps (drop (length q) s)) (drop (length q) s)"
      using "1" by simp
    then have "suffix (strip_leading ps (drop (length q) s)) s"
      using suffix_drop suffix_order.trans by blast
    with Some show ?thesis by (subst strip_leading.simps) simp
  qed
qed

lemma strip_leading_id:
  "(\<And>p. p \<in> set ps \<Longrightarrow> p \<noteq> [] \<Longrightarrow> \<not> prefix p s) \<Longrightarrow> strip_leading ps s = s"
proof -
  assume a: "\<And>p. p \<in> set ps \<Longrightarrow> p \<noteq> [] \<Longrightarrow> \<not> prefix p s"
  have "find (\<lambda>p. p \<noteq> [] \<and> prefix p s) ps = None"
    using a by (auto simp: find_None_iff)
  then show ?thesis by (subst strip_leading.simps) simp
qed

lemma TrimSpace_no_prefix:
  assumes "p \<in> set space_seqs"
  shows "\<not> prefix p (TrimSpace s)"
proof
  assume pr: "prefix p (TrimSpace s)"
  define l where "l = strip_leading space_seqs s"
  define q where "q = strip_leading (map rev space_seqs) (rev l)"
  have "suffix q (rev l)" unfolding q_def by (rule strip_leading_suffix)
  then have "prefix (rev q) l" by (simp add: suffix_to_prefix)
  moreover have "TrimSpace s = rev q" by (simp add: TrimSpace_def q_def l_def)
  ultimately have "prefix p l" using pr prefix_order.trans by metis
  moreover have "\<not> prefix p l"
    unfolding l_def using assms space_seqs_nonempty by (intro strip_leading_no_prefix) auto
  ultimately show False by simp
qed

lemma TrimSpace_no_suffix:
  assumes "p \<in> set space_seqs"
  shows "\<not> suffix p (TrimSpace s)"
proof
  assume su: "suffix p (TrimSpace s)"
  define l where "l = strip_leading space_seqs s"
  define q where "q = strip_leading (map rev space_seqs) (rev l)"
  have t: "TrimSpace s = rev q" by (simp add: TrimSpace_def q_def l_def)
  from su have "prefix (rev p) q" unfolding t by (simp add: suffix_to_prefix)
  moreover have "\<not> prefix (rev p) q"
    unfolding q_def using assms space_seqs_nonempty by (intro strip_leading_no_prefix) auto
  ultimately show False by simp
qed

lemma TrimSpace_outer_trimmed: "outer_trimmed (TrimSpace s)"
  unfolding outer_trimmed_def list_all_iff using TrimSpace_no_prefix TrimSpace_no_suffix by blast

lemma outer_trimmed_TrimSpace: "outer_trimmed s \<Longrightarrow> TrimSpace s = s"
proof -
  assume o: "outer_trimmed s"
  have l: "strip_leading space_seqs s = s"
    using o by (intro strip_leading_id) (auto simp: outer_trimmed_def list_all_iff)
  have "strip_leading (map rev space_seqs) (rev s) = rev s"
  proof (rule strip_leading_id)
    fix p assume "p \<in> set (map rev space_seqs)" "p \<noteq> []"
    then obtain p' where "p' \<in> set space_seqs" "p = rev p'" by auto
    then have "\<not> suffix p' s" using o by (auto simp: outer_trimmed_def list_all_iff)
    then show "\<not> prefix p (rev s)" using \<open>p = rev p'\<close> by (simp add: suffix_to_prefix)
  qed
  with l show ?thesis by (simp add: TrimSpace_def)
qed

lemma TrimSpace_idem: "TrimSpace (TrimSpace s) = TrimSpace s"
  by (rule outer_trimmed_TrimSpace) (rule TrimSpace_outer_trimmed)

lemma TrimSpace_ex1: "TrimSpace ''  Clean Code  '' = ''Clean Code''"
  by (simp add: TrimSpace_def space_seqs_def)

lemma TrimSpace_ex2: "TrimSpace '' '' = []"
  by (simp add: TrimSpace_def space_seqs_def)

section \<open>Lemmas: the validators\<close>

lemma if_pair_same: "(if c then (a, x) else (a, y)) = (a, if c then x else y)"
  by simp

lemma errors_of_result: "errors_of (if \<not> ok e then Some e else None) = e"
  by (cases e) (simp_all add: errors_of_def ok_def)

lemma add_chain1:
  "k \<notin> fst ` set e \<Longrightarrow>
   (if c1 then add e k m1 else e) = e @ (if c1 then [(k, m1)] else [])"
  by (simp add: add_def map_of_eq_None_iff)

lemma add_chain2:
  "k \<notin> fst ` set e \<Longrightarrow>
   (if c1 then add e k m1 else if c2 then add e k m2 else e) =
   e @ (if c1 then [(k, m1)] else if c2 then [(k, m2)] else [])"
  by (simp add: add_def map_of_eq_None_iff)

lemma add_chain3:
  "k \<notin> fst ` set e \<Longrightarrow>
   (if c1 then add e k m1 else if c2 then add e k m2 else if c3 then add e k m3 else e) =
   e @ (if c1 then [(k, m1)] else if c2 then [(k, m2)] else if c3 then [(k, m3)] else [])"
  by (simp add: add_def map_of_eq_None_iff)

lemma keys_if2: "fst ` set (if c1 then [(k, m1)] else if c2 then [(k, m2)] else []) \<subseteq> {k}"
  by auto

lemma create_unfold:
  fixes i :: CreateBookInput
  defines "t \<equiv> TrimSpace (Title i)" and "a \<equiv> TrimSpace (Author i)" and "s \<equiv> TrimSpace (ISBN i)"
  shows "validateAndNormalizeCreate uni near i =
     (i\<lparr>Title := t, Author := a,
        ISBN := (if s \<noteq> [] \<and> isValidISBN uni s then normalizeISBN uni s else s)\<rparr>,
      let e =
       (if t = [] then [(''title'', ''Title is required'')]
        else if length t > 120 then [(''title'', msg_title_long)] else []) @
       (if a = [] then [(''author'', ''Author is required'')]
        else if length a > 80 then [(''author'', msg_author_long)] else []) @
       (if s = [] then [(''isbn'', ''ISBN is required'')]
        else if \<not> isValidISBN uni s then [(''isbn'', msg_isbn_invalid)] else []) @
       (if PublicationYear i = 0 then [(''publication_year'', ''Publication year is required'')]
        else if \<not> isValidFourDigitYearInt (PublicationYear i)
        then [(''publication_year'', msg_year_digits)] else []) @
       (if f_less (Price i) (Finite 0) then [(''price'', msg_price_neg)]
        else if f_less (Finite 1000000) (Price i) then [(''price'', ''Price is too large'')]
        else if \<not> hasMax2Decimals near (Price i) then [(''price'', ''Max 2 decimal places'')]
        else [])
      in if \<not> ok e then Some e else None)"
proof -
  define in3 where "in3 = i\<lparr>Title := t, Author := a, ISBN := s\<rparr>"
  define in4 where "in4 = (if ISBN in3 = [] then in3
                 else if \<not> isValidISBN uni (ISBN in3) then in3
                 else in3\<lparr>ISBN := normalizeISBN uni (ISBN in3)\<rparr>)"
  define E1 where "E1 = (if t = [] then [(''title'', ''Title is required'')]
        else if length t > 120 then [(''title'', msg_title_long)] else [])"
  define E2 where "E2 = (if a = [] then [(''author'', ''Author is required'')]
        else if length a > 80 then [(''author'', msg_author_long)] else [])"
  define E3 where "E3 = (if s = [] then [(''isbn'', ''ISBN is required'')]
        else if \<not> isValidISBN uni s then [(''isbn'', msg_isbn_invalid)] else [])"
  define E4 where "E4 = (if PublicationYear i = 0 then [(''publication_year'', ''Publication year is required'')]
        else if \<not> isValidFourDigitYearInt (PublicationYear i)
        then [(''publication_year'', msg_year_digits)] else [])"
  define E5 where "E5 = (if f_less (Price i) (Finite 0) then [(''price'', msg_price_neg)]
        else if f_less (Finite 1000000) (Price i) then [(''price'', ''Price is too large'')]
        else if \<not> hasMax2Decimals near (Price i) then [(''price'', ''Max 2 decimal places'')]
        else [])"
  define e1 where "e1 = (if t = [] then add [] ''title'' ''Title is required''
                   else if length t > 120 then add [] ''title'' msg_title_long
                   else [])"
  define e2 where "e2 = (if a = [] then add e1 ''author'' ''Author is required''
                   else if length a > 80 then add e1 ''author'' msg_author_long
                   else e1)"
  define e3 where "e3 = (if s = [] then add e2 ''isbn'' ''ISBN is required''
                   else if \<not> isValidISBN uni s then add e2 ''isbn'' msg_isbn_invalid
                   else e2)"
  define e4 where "e4 = (if PublicationYear i = 0
                   then add e3 ''publication_year'' ''Publication year is required''
                   else if \<not> isValidFourDigitYearInt (PublicationYear i)
                   then add e3 ''publication_year'' msg_year_digits
                   else e3)"
  define e5 where "e5 = (if f_less (Price i) (Finite 0) then add e4 ''price'' msg_price_neg
                   else if f_less (Finite 1000000) (Price i)
                   then add e4 ''price'' ''Price is too large''
                   else if \<not> hasMax2Decimals near (Price i)
                   then add e4 ''price'' ''Max 2 decimal places''
                   else e4)"
  have y4: "PublicationYear in4 = PublicationYear i" and p4: "Price in4 = Price i"
    by (simp_all add: in4_def in3_def)
  have s3: "ISBN in3 = s" by (simp add: in3_def)
  have unf: "validateAndNormalizeCreate uni near i = (in4, if \<not> ok e5 then Some e5 else None)"
    unfolding validateAndNormalizeCreate_def Let_def if_pair_same
    by (simp add: in4_def in3_def e5_def e4_def e3_def e2_def e1_def t_def a_def s_def
        if_distrib [of Price] if_distrib [of PublicationYear]
        split del: if_split cong del: if_weak_cong)
  have k1: "e1 = E1" unfolding e1_def E1_def using add_chain2 [of "''title''" "[]"] by simp
  have k2: "e2 = E1 @ E2" unfolding e2_def E2_def k1
    by (rule add_chain2) (auto simp: E1_def)
  have k3: "e3 = (E1 @ E2) @ E3" unfolding e3_def E3_def k2
    by (rule add_chain2) (auto simp: E1_def E2_def)
  have k4: "e4 = ((E1 @ E2) @ E3) @ E4" unfolding e4_def E4_def k3
    by (rule add_chain2) (auto simp: E1_def E2_def E3_def)
  have k5: "e5 = (((E1 @ E2) @ E3) @ E4) @ E5" unfolding e5_def E5_def k4
    by (rule add_chain3) (auto simp: E1_def E2_def E3_def E4_def)
  have i4: "in4 = i\<lparr>Title := t, Author := a,
        ISBN := (if s \<noteq> [] \<and> isValidISBN uni s then normalizeISBN uni s else s)\<rparr>"
    by (simp add: in4_def in3_def)
  show ?thesis
    unfolding unf k5 i4 Let_def E1_def E2_def E3_def E4_def E5_def by (simp only: append_assoc)
qed


lemma keys_case2:
  "fst ` set (case x of None \<Rightarrow> [] | Some v \<Rightarrow> if c1 v then [(k, m1)] else if c2 v then [(k, m2)] else [])
     \<subseteq> {k}"
  by (auto split: option.splits)

lemma keys_case1:
  "fst ` set (case x of None \<Rightarrow> [] | Some v \<Rightarrow> if c1 v then [(k, m1)] else []) \<subseteq> {k}"
  by (auto split: option.splits)

lemma update_unfold:
  fixes i :: UpdateBookInput
  shows "validateAndNormalizeUpdate uni near i =
     (i\<lparr>uTitle := (case uTitle i of None \<Rightarrow> None
                   | Some t \<Rightarrow> if TrimSpace t = [] \<or> length (TrimSpace t) > 120
                              then Some t else Some (TrimSpace t)),
       uAuthor := (case uAuthor i of None \<Rightarrow> None
                   | Some a \<Rightarrow> if TrimSpace a = [] \<or> length (TrimSpace a) > 80
                              then Some a else Some (TrimSpace a)),
       uISBN := (case uISBN i of None \<Rightarrow> None
                   | Some s \<Rightarrow> if TrimSpace s = [] \<or> \<not> isValidISBN uni (TrimSpace s)
                              then Some s else Some (normalizeISBN uni (TrimSpace s)))\<rparr>,
      let e =
       (case uTitle i of None \<Rightarrow> []
        | Some t \<Rightarrow> if TrimSpace t = [] then [(''title'', ''Title is required'')]
                   else if length (TrimSpace t) > 120 then [(''title'', msg_title_long)] else []) @
       (case uAuthor i of None \<Rightarrow> []
        | Some a \<Rightarrow> if TrimSpace a = [] then [(''author'', ''Author is required'')]
                   else if length (TrimSpace a) > 80 then [(''author'', msg_author_long)] else []) @
       (case uISBN i of None \<Rightarrow> []
        | Some s \<Rightarrow> if TrimSpace s = [] then [(''isbn'', ''ISBN is required'')]
                   else if \<not> isValidISBN uni (TrimSpace s) then [(''isbn'', msg_isbn_invalid)] else []) @
       (case uPublicationYear i of None \<Rightarrow> []
        | Some y \<Rightarrow> if \<not> isValidFourDigitYearInt y
                   then [(''publication_year'', msg_year_digits)] else []) @
       (case uPrice i of None \<Rightarrow> []
        | Some p \<Rightarrow> if f_less p (Finite 0) then [(''price'', msg_price_neg)]
                   else if f_less (Finite 1000000) p then [(''price'', ''Price is too large'')]
                   else if \<not> hasMax2Decimals near p then [(''price'', ''Max 2 decimal places'')]
                   else [])
      in if \<not> ok e then Some e else None)"
proof -
  define p1 where "p1 =
            (case uTitle i of
               None \<Rightarrow> (i, [])
             | Some title \<Rightarrow>
                 (let t = TrimSpace title
                  in if t = [] then (i, add [] ''title'' ''Title is required'')
                     else if length t > 120 then (i, add [] ''title'' msg_title_long)
                     else (i\<lparr>uTitle := Some t\<rparr>, [])))"
  define p2 where "p2 =
            (case uAuthor (fst p1) of
               None \<Rightarrow> (fst p1, snd p1)
             | Some author \<Rightarrow>
                 (let a = TrimSpace author
                  in if a = [] then (fst p1, add (snd p1) ''author'' ''Author is required'')
                     else if length a > 80 then (fst p1, add (snd p1) ''author'' msg_author_long)
                     else ((fst p1)\<lparr>uAuthor := Some a\<rparr>, snd p1)))"
  define p3 where "p3 =
            (case uISBN (fst p2) of
               None \<Rightarrow> (fst p2, snd p2)
             | Some isbn \<Rightarrow>
                 (let s = TrimSpace isbn
                  in if s = [] then (fst p2, add (snd p2) ''isbn'' ''ISBN is required'')
                     else if \<not> isValidISBN uni s then (fst p2, add (snd p2) ''isbn'' msg_isbn_invalid)
                     else (let ns = normalizeISBN uni s in ((fst p2)\<lparr>uISBN := Some ns\<rparr>, snd p2))))"
  define e4 where "e4 =
            (case uPublicationYear (fst p3) of
               None \<Rightarrow> snd p3
             | Some y \<Rightarrow>
                 if \<not> isValidFourDigitYearInt y
                 then add (snd p3) ''publication_year'' msg_year_digits
                 else snd p3)"
  define e5 where "e5 =
            (case uPrice (fst p3) of
               None \<Rightarrow> e4
             | Some p \<Rightarrow>
                 if f_less p (Finite 0) then add e4 ''price'' msg_price_neg
                 else if f_less (Finite 1000000) p then add e4 ''price'' ''Price is too large''
                 else if \<not> hasMax2Decimals near p then add e4 ''price'' ''Max 2 decimal places''
                 else e4)"
  define T where "T = (case uTitle i of None \<Rightarrow> None
                   | Some t \<Rightarrow> if TrimSpace t = [] \<or> length (TrimSpace t) > 120
                              then Some t else Some (TrimSpace t))"
  define A where "A = (case uAuthor i of None \<Rightarrow> None
                   | Some a \<Rightarrow> if TrimSpace a = [] \<or> length (TrimSpace a) > 80
                              then Some a else Some (TrimSpace a))"
  define S where "S = (case uISBN i of None \<Rightarrow> None
                   | Some s \<Rightarrow> if TrimSpace s = [] \<or> \<not> isValidISBN uni (TrimSpace s)
                              then Some s else Some (normalizeISBN uni (TrimSpace s)))"
  define E1 where "E1 = (case uTitle i of None \<Rightarrow> []
        | Some t \<Rightarrow> if TrimSpace t = [] then [(''title'', ''Title is required'')]
                   else if length (TrimSpace t) > 120 then [(''title'', msg_title_long)] else [])"
  define E2 where "E2 = (case uAuthor i of None \<Rightarrow> []
        | Some a \<Rightarrow> if TrimSpace a = [] then [(''author'', ''Author is required'')]
                   else if length (TrimSpace a) > 80 then [(''author'', msg_author_long)] else [])"
  define E3 where "E3 = (case uISBN i of None \<Rightarrow> []
        | Some s \<Rightarrow> if TrimSpace s = [] then [(''isbn'', ''ISBN is required'')]
                   else if \<not> isValidISBN uni (TrimSpace s) then [(''isbn'', msg_isbn_invalid)] else [])"
  define E4 where "E4 = (case uPublicationYear i of None \<Rightarrow> []
        | Some y \<Rightarrow> if \<not> isValidFourDigitYearInt y
                   then [(''publication_year'', msg_year_digits)] else [])"
  define E5 where "E5 = (case uPrice i of None \<Rightarrow> []
        | Some p \<Rightarrow> if f_less p (Finite 0) then [(''price'', msg_price_neg)]
                   else if f_less (Finite 1000000) p then [(''price'', ''Price is too large'')]
                   else if \<not> hasMax2Decimals near p then [(''price'', ''Max 2 decimal places'')]
                   else [])"
  have unf: "validateAndNormalizeUpdate uni near i = (fst p3, if \<not> ok e5 then Some e5 else None)"
    unfolding validateAndNormalizeUpdate_def p1_def p2_def p3_def e4_def e5_def
      Let_def case_prod_beta if_pair_same
    by (rule refl)
  have K1: "fst ` set E1 \<subseteq> {''title''}" unfolding E1_def by (rule keys_case2)
  have K2: "fst ` set E2 \<subseteq> {''author''}" unfolding E2_def by (rule keys_case2)
  have K3: "fst ` set E3 \<subseteq> {''isbn''}" unfolding E3_def by (rule keys_case2)
  have K4: "fst ` set E4 \<subseteq> {''publication_year''}" unfolding E4_def by (rule keys_case1)
  have f1: "fst p1 = i\<lparr>uTitle := T\<rparr>"
    by (auto simp: p1_def T_def Let_def split: option.splits)
  have s1: "snd p1 = E1"
    by (auto simp: p1_def E1_def Let_def add_def split: option.splits)
  have a1: "uAuthor (fst p1) = uAuthor i" by (simp add: f1)
  have f2: "fst p2 = i\<lparr>uTitle := T, uAuthor := A\<rparr>"
    unfolding p2_def a1 by (auto simp: f1 A_def Let_def split: option.splits)
  have n2: "''author'' \<notin> fst ` set E1" using K1 by auto
  have s2: "snd p2 = E1 @ E2"
    unfolding p2_def a1 s1 using n2
    by (auto simp: E2_def Let_def add_def map_of_eq_None_iff split: option.splits)
  have a2: "uISBN (fst p2) = uISBN i" by (simp add: f2)
  have f3: "fst p3 = i\<lparr>uTitle := T, uAuthor := A, uISBN := S\<rparr>"
    unfolding p3_def a2 by (auto simp: f2 S_def Let_def split: option.splits)
  have n3: "''isbn'' \<notin> fst ` set (E1 @ E2)" using K1 K2 by auto
  have s3: "snd p3 = (E1 @ E2) @ E3"
    unfolding p3_def a2 s2 using n3
    by (auto simp: E3_def Let_def add_def map_of_eq_None_iff split: option.splits)
  have a3: "uPublicationYear (fst p3) = uPublicationYear i" "uPrice (fst p3) = uPrice i"
    by (simp_all add: f3)
  have n4: "''publication_year'' \<notin> fst ` set ((E1 @ E2) @ E3)" using K1 K2 K3 by auto
  have s4: "e4 = ((E1 @ E2) @ E3) @ E4"
    unfolding e4_def a3 s3 using n4
    by (auto simp: E4_def add_def map_of_eq_None_iff split: option.splits)
  have n5: "''price'' \<notin> fst ` set (((E1 @ E2) @ E3) @ E4)" using K1 K2 K3 K4 by auto
  have s5: "e5 = (((E1 @ E2) @ E3) @ E4) @ E5"
    unfolding e5_def a3 s4 using n5
    by (auto simp: E5_def add_def map_of_eq_None_iff split: option.splits)
  show ?thesis
    unfolding unf s5 f3 Let_def T_def A_def S_def E1_def E2_def E3_def E4_def E5_def
    by (simp only: append_assoc)
qed

lemma create_fst:
  "fst (validateAndNormalizeCreate uni near i) =
     i\<lparr>Title := TrimSpace (Title i), Author := TrimSpace (Author i),
       ISBN := (if TrimSpace (ISBN i) \<noteq> [] \<and> isValidISBN uni (TrimSpace (ISBN i))
                then normalizeISBN uni (TrimSpace (ISBN i)) else TrimSpace (ISBN i))\<rparr>"
  by (simp add: create_unfold)

lemma create_errors:
  "errors_of (snd (validateAndNormalizeCreate uni near i)) =
       (if TrimSpace (Title i) = [] then [(''title'', ''Title is required'')]
        else if length (TrimSpace (Title i)) > 120 then [(''title'', msg_title_long)] else []) @
       (if TrimSpace (Author i) = [] then [(''author'', ''Author is required'')]
        else if length (TrimSpace (Author i)) > 80 then [(''author'', msg_author_long)] else []) @
       (if TrimSpace (ISBN i) = [] then [(''isbn'', ''ISBN is required'')]
        else if \<not> isValidISBN uni (TrimSpace (ISBN i)) then [(''isbn'', msg_isbn_invalid)] else []) @
       (if PublicationYear i = 0 then [(''publication_year'', ''Publication year is required'')]
        else if \<not> isValidFourDigitYearInt (PublicationYear i)
        then [(''publication_year'', msg_year_digits)] else []) @
       (if f_less (Price i) (Finite 0) then [(''price'', msg_price_neg)]
        else if f_less (Finite 1000000) (Price i) then [(''price'', ''Price is too large'')]
        else if \<not> hasMax2Decimals near (Price i) then [(''price'', ''Max 2 decimal places'')]
        else [])"
  unfolding create_unfold snd_conv Let_def by (rule errors_of_result)

lemma snd_None_iff: "(if \<not> ok e then Some e else None) = None \<longleftrightarrow> e = []"
  by (simp add: ok_def)

lemma create_ok_iff:
  "snd (validateAndNormalizeCreate uni near i) = None \<longleftrightarrow>
     errors_of (snd (validateAndNormalizeCreate uni near i)) = []"
  unfolding create_unfold snd_conv Let_def errors_of_result snd_None_iff by (rule refl)

lemma update_fst:
  "fst (validateAndNormalizeUpdate uni near i) =
     i\<lparr>uTitle := (case uTitle i of None \<Rightarrow> None
                   | Some t \<Rightarrow> if TrimSpace t = [] \<or> length (TrimSpace t) > 120
                              then Some t else Some (TrimSpace t)),
       uAuthor := (case uAuthor i of None \<Rightarrow> None
                   | Some a \<Rightarrow> if TrimSpace a = [] \<or> length (TrimSpace a) > 80
                              then Some a else Some (TrimSpace a)),
       uISBN := (case uISBN i of None \<Rightarrow> None
                   | Some s \<Rightarrow> if TrimSpace s = [] \<or> \<not> isValidISBN uni (TrimSpace s)
                              then Some s else Some (normalizeISBN uni (TrimSpace s)))\<rparr>"
  by (simp add: update_unfold)

lemma update_errors:
  "errors_of (snd (validateAndNormalizeUpdate uni near i)) =
       (case uTitle i of None \<Rightarrow> []
        | Some t \<Rightarrow> if TrimSpace t = [] then [(''title'', ''Title is required'')]
                   else if length (TrimSpace t) > 120 then [(''title'', msg_title_long)] else []) @
       (case uAuthor i of None \<Rightarrow> []
        | Some a \<Rightarrow> if TrimSpace a = [] then [(''author'', ''Author is required'')]
                   else if length (TrimSpace a) > 80 then [(''author'', msg_author_long)] else []) @
       (case uISBN i of None \<Rightarrow> []
        | Some s \<Rightarrow> if TrimSpace s = [] then [(''isbn'', ''ISBN is required'')]
                   else if \<not> isValidISBN uni (TrimSpace s) then [(''isbn'', msg_isbn_invalid)] else []) @
       (case uPublicationYear i of None \<Rightarrow> []
        | Some y \<Rightarrow> if \<not> isValidFourDigitYearInt y
                   then [(''publication_year'', msg_year_digits)] else []) @
       (case uPrice i of None \<Rightarrow> []
        | Some p \<Rightarrow> if f_less p (Finite 0) then [(''price'', msg_price_neg)]
                   else if f_less (Finite 1000000) p then [(''price'', ''Price is too large'')]
                   else if \<not> hasMax2Decimals near p then [(''price'', ''Max 2 decimal places'')]
                   else [])"
  unfolding update_unfold snd_conv Let_def by (rule errors_of_result)

lemma update_ok_iff:
  "snd (validateAndNormalizeUpdate uni near i) = None \<longleftrightarrow>
     errors_of (snd (validateAndNormalizeUpdate uni near i)) = []"
  unfolding update_unfold snd_conv Let_def errors_of_result snd_None_iff by (rule refl)

lemma errors_Some:
  "errors_of r = e \<Longrightarrow> e \<noteq> [] \<Longrightarrow> r = Some e"
  by (cases r) (auto simp: errors_of_def)

lemma add_present: "f \<in> fst ` set e \<Longrightarrow> add e f m = e"
  by (auto simp: add_def map_of_eq_None_iff)

lemma TrimSpace_blank: "TrimSpace '' '' = []" and TrimSpace_empty: "TrimSpace [] = []"
  and TrimSpace_bad: "TrimSpace ''bad-isbn'' = ''bad-isbn''"
  by (simp_all add: TrimSpace_def space_seqs_def)

lemma bad_isbn: "\<not> isValidISBN (\<lambda>s. s) ''bad-isbn''"
  by (simp add: isValidISBN_def normalizeISBN_def ReplaceAll_empty_def ToUpper_def
      is_ascii_def upper_byte_def)

lemma map_of_first:
  assumes "k \<notin> fst ` set ys"
  shows "map_of (xs @ ys) k = map_of xs k"
proof -
  have "map_of ys k = None" using assms by (simp add: map_of_eq_None_iff)
  then show ?thesis by (simp add: map_add_def split: option.splits)
qed

lemma map_of_skip:
  assumes "k \<notin> fst ` set xs"
  shows "map_of (xs @ ys) k = map_of ys k"
proof -
  have "map_of xs k = None" using assms by (simp add: map_of_eq_None_iff)
  then show ?thesis by (simp add: map_add_def split: option.splits)
qed

lemma create_title_accepted:
  "map_of (errors_of (snd (validateAndNormalizeCreate uni near i))) ''title'' = None \<longleftrightarrow>
     TrimSpace (Title i) \<noteq> [] \<and> length (TrimSpace (Title i)) \<le> 120"
  unfolding create_errors
  by (subst map_of_first) (auto split: if_splits)

lemma create_author_accepted:
  "map_of (errors_of (snd (validateAndNormalizeCreate uni near i))) ''author'' = None \<longleftrightarrow>
     TrimSpace (Author i) \<noteq> [] \<and> length (TrimSpace (Author i)) \<le> 80"
  unfolding create_errors
  apply (subst map_of_skip)
   apply (auto split: if_splits)[1]
  apply (subst map_of_first)
   apply (auto split: if_splits)
  done

lemma update_title_accepted:
  "uTitle p = Some t \<Longrightarrow>
   map_of (errors_of (snd (validateAndNormalizeUpdate uni near p))) ''title'' = None \<longleftrightarrow>
     TrimSpace t \<noteq> [] \<and> length (TrimSpace t) \<le> 120"
  unfolding update_errors
  by (subst map_of_first) (auto split: if_splits option.splits)

lemma update_author_accepted:
  "uAuthor p = Some a \<Longrightarrow>
   map_of (errors_of (snd (validateAndNormalizeUpdate uni near p))) ''author'' = None \<longleftrightarrow>
     TrimSpace a \<noteq> [] \<and> length (TrimSpace a) \<le> 80"
  unfolding update_errors
  apply (subst map_of_skip)
   apply (auto split: if_splits option.splits)[1]
  apply (subst map_of_first)
   apply (auto split: if_splits option.splits)
  done

lemma accepted_of_ok: "r = None \<Longrightarrow> map_of (errors_of r) k = None"
  by (simp add: errors_of_def)

lemma TrimSpace_clean: "TrimSpace ''  Clean Code  '' = ''Clean Code''"
  and TrimSpace_martin: "TrimSpace '' Robert C. Martin '' = ''Robert C. Martin''"
  and TrimSpace_isbn13: "TrimSpace ''978-0-13-235088-4'' = ''978-0-13-235088-4''"
  and TrimSpace_isbn10: "TrimSpace '' 0-306-40615-2'' = ''0-306-40615-2''"
  by (simp_all add: TrimSpace_def space_seqs_def)

lemma normalize_isbn13_example: "normalizeISBN (\<lambda>s. s) ''978-0-13-235088-4'' = ''9780132350884''"
  and normalize_isbn10_example: "normalizeISBN (\<lambda>s. s) ''0-306-40615-2'' = ''0306406152''"
  by (simp_all add: normalizeISBN_def ReplaceAll_empty_def ToUpper_def is_ascii_def upper_byte_def)

lemma valid_isbn13_example: "isValidISBN (\<lambda>s. s) ''978-0-13-235088-4''"
  by (simp add: isValidISBN_def normalize_isbn13_example isValidISBN13_def reIsbn13_def isDigit_def
      byte_sub_def Let_def isbn13_loop.simps)

lemma valid_isbn10_example: "isValidISBN (\<lambda>s. s) ''0-306-40615-2''"
  using example_isbn10 by (simp add: isValidISBN_def normalize_isbn10_example)

section \<open>Lemmas: the normalized form of an ISBN, trimming\<close>

lemma lower_letter_table:
  "\<forall>n\<in>{97..<123::nat}. char_of n \<in> set ''abcdefghijklmnopqrstuvwxyz''"
  by code_simp

lemma lower_letter_cases:
  assumes "97 \<le> (of_char c :: nat)" "(of_char c :: nat) \<le> 122"
  shows "c \<in> set ''abcdefghijklmnopqrstuvwxyz''"
proof -
  have "(of_char c :: nat) \<in> {97..<123}" using assms by simp
  with lower_letter_table
  have "char_of (of_char c :: nat) \<in> set ''abcdefghijklmnopqrstuvwxyz''" by blast
  then show ?thesis by simp
qed

lemma upper_byte_letters:
  "\<forall>c\<in>set ''abcdefghijklmnopqrstuvwxyz''. upper_byte c = spec_upper c"
  by code_simp

lemma upper_byte_spec: "upper_byte c = spec_upper c"
proof (cases "97 \<le> (of_char c :: nat) \<and> (of_char c :: nat) \<le> 122")
  case True
  then have "c \<in> set ''abcdefghijklmnopqrstuvwxyz''" using lower_letter_cases by blast
  with upper_byte_letters show ?thesis by blast
next
  case False
  then have "c \<notin> set ''abcdefghijklmnopqrstuvwxyz''" by auto
  then have none: "map_of (zip ''abcdefghijklmnopqrstuvwxyz'' ''ABCDEFGHIJKLMNOPQRSTUVWXYZ'') c = None"
    by (subst map_of_eq_None_iff) simp
  have "spec_upper c = c" unfolding spec_upper_def none by simp
  with False show ?thesis by (auto simp: upper_byte_def)
qed

lemma strip_spec: "ReplaceAll_empty (ReplaceAll_empty s (CHR '' '')) (CHR ''-'') = spec_strip s"
  by (simp add: ReplaceAll_empty_def spec_strip_def)

lemma ascii_strip: "list_all is_ascii (spec_strip s) = list_all is_ascii s"
  by (induction s) (auto simp: spec_strip_def is_ascii_def)

lemma normalizeISBN_ascii:
  "list_all is_ascii s \<Longrightarrow> normalizeISBN uni s = spec_normalized s"
  by (simp add: normalizeISBN_def strip_spec ToUpper_def ascii_strip spec_normalized_def
      upper_byte_spec)

lemma normalizeISBN_other:
  "\<not> list_all is_ascii s \<Longrightarrow> normalizeISBN uni s = uni (spec_strip s)"
  by (simp add: normalizeISBN_def strip_spec ToUpper_def ascii_strip)

lemma isValidISBN_spec_rules:
  "isValidISBN uni s = (spec_isbn10 (normalizeISBN uni s) \<or> spec_isbn13 (normalizeISBN uni s))"
proof -
  have a: "length n \<noteq> 10 \<Longrightarrow> \<not> spec_isbn10 n" for n by (simp add: spec_isbn10_def)
  have b: "length n \<noteq> 13 \<Longrightarrow> \<not> spec_isbn13 n" for n by (simp add: spec_isbn13_def)
  show ?thesis
    using a b by (auto simp: isValidISBN_def Let_def isValidISBN10_spec isValidISBN13_spec)
qed

lemma strip_leading_white:
  "\<exists>qs. set qs \<subseteq> set ps \<and> s = concat qs @ strip_leading ps s"
proof (induction ps s rule: strip_leading.induct)
  case (1 ps s)
  show ?case
  proof (cases "find (\<lambda>p. p \<noteq> [] \<and> prefix p s) ps")
    case None
    then have "strip_leading ps s = s" by (subst strip_leading.simps) simp
    then have "set [] \<subseteq> set ps \<and> s = concat [] @ strip_leading ps s" by simp
    then show ?thesis by blast
  next
    case (Some p)
    then have p: "p \<in> set ps" "prefix p s" by (auto simp: find_Some_iff in_set_conv_nth)
    from "1" [OF Some] obtain qs where qs: "set qs \<subseteq> set ps"
      "drop (length p) s = concat qs @ strip_leading ps (drop (length p) s)" by blast
    have e: "strip_leading ps s = strip_leading ps (drop (length p) s)"
      using Some by (subst strip_leading.simps) simp
    from p(2) have "s = p @ drop (length p) s" by (auto simp: prefix_def)
    then have "s = concat (p # qs) @ strip_leading ps s"
      using qs(2) e by simp
    moreover have "set (p # qs) \<subseteq> set ps" using p(1) qs(1) by simp
    ultimately show ?thesis by blast
  qed
qed

lemma TrimSpace_trimmed_form: "trimmed_form s (TrimSpace s)"
proof -
  define l where "l = strip_leading space_seqs s"
  define q where "q = strip_leading (map rev space_seqs) (rev l)"
  have t: "TrimSpace s = rev q" by (simp add: TrimSpace_def q_def l_def)
  from strip_leading_white [of space_seqs s] obtain qs1 where
    1: "set qs1 \<subseteq> set space_seqs" "s = concat qs1 @ l" unfolding l_def by blast
  from strip_leading_white [of "map rev space_seqs" "rev l"] obtain qs2 where
    2: "set qs2 \<subseteq> set (map rev space_seqs)" "rev l = concat qs2 @ q" unfolding q_def by blast
  from 2(2) have "rev (rev l) = rev (concat qs2 @ q)" by simp
  then have l: "l = rev q @ concat (map rev (rev qs2))" by (simp add: rev_concat)
  have "set (map rev (rev qs2)) \<subseteq> set space_seqs"
    using 2(1) by auto
  then have w2: "white_space (concat (map rev (rev qs2)))"
    unfolding white_space_def by blast
  have w1: "white_space (concat qs1)" unfolding white_space_def using 1(1) by blast
  have "s = concat qs1 @ TrimSpace s @ concat (map rev (rev qs2))"
    using 1(2) l t by simp
  with w1 w2 show ?thesis
    unfolding trimmed_form_def using TrimSpace_outer_trimmed by blast
qed

lemma candidate_chars:
  "spec_isbn10 n \<or> spec_isbn13 n \<Longrightarrow> list_all (\<lambda>c. isDigit c \<or> c = CHR ''X'') n"
proof -
  assume "spec_isbn10 n \<or> spec_isbn13 n"
  then have "reIsbn10 n \<or> reIsbn13 n"
    using isValidISBN10_spec isValidISBN13_spec isValidISBN10_re isValidISBN13_re by blast
  then show ?thesis using reIsbn10_chars reIsbn13_chars by (auto simp: list_all_iff)
qed

lemma example_x: "isValidISBN10 ''080442957X''"
  by (simp add: isValidISBN10_def reIsbn10_def isDigit_def isbn10_loop.simps byte_sub_def)

lemma create_isbn_ascii:
  assumes "list_all is_ascii (TrimSpace (ISBN i))"
  shows "ISBN (fst (validateAndNormalizeCreate uni near i)) =
     (if spec_isbn10 (spec_normalized (TrimSpace (ISBN i))) \<or>
         spec_isbn13 (spec_normalized (TrimSpace (ISBN i)))
      then spec_normalized (TrimSpace (ISBN i)) else TrimSpace (ISBN i))"
proof -
  have e: "\<not> spec_isbn10 [] \<and> \<not> spec_isbn13 []"
    by (simp add: spec_isbn10_def spec_isbn13_def)
  have n: "spec_normalized [] = []" by (simp add: spec_normalized_def spec_strip_def)
  show ?thesis
    using e n by (auto simp: create_fst isValidISBN_spec_rules normalizeISBN_ascii [OF assms])
qed

lemma create_isbn_other:
  assumes "\<not> list_all is_ascii (TrimSpace (ISBN i))"
  shows "ISBN (fst (validateAndNormalizeCreate uni near i)) =
     (if spec_isbn10 (uni (spec_strip (TrimSpace (ISBN i)))) \<or>
         spec_isbn13 (uni (spec_strip (TrimSpace (ISBN i))))
      then uni (spec_strip (TrimSpace (ISBN i))) else TrimSpace (ISBN i))"
proof -
  from assms have "TrimSpace (ISBN i) \<noteq> []" by auto
  then show ?thesis
    by (auto simp: create_fst isValidISBN_spec_rules normalizeISBN_other [OF assms])
qed

lemma create_fails_on_price:
  assumes "f_less (Price i) (Finite 0)"
  shows "snd (validateAndNormalizeCreate uni near i) \<noteq> None"
proof -
  have "errors_of (snd (validateAndNormalizeCreate uni near i)) \<noteq> []"
    unfolding create_errors using assms by simp
  then show ?thesis
    by (cases "snd (validateAndNormalizeCreate uni near i)") (auto simp: errors_of_def)
qed

lemma TrimSpace_isbn_x: "TrimSpace '' 0-8044 2957-x '' = ''0-8044 2957-x''"
  by (simp add: TrimSpace_def space_seqs_def)

lemma long_title_outer: "outer_trimmed long_title"
  by code_simp

section \<open>Lemmas: rounding to binary64\<close>

lemma pow2_powi: "pow2 e = 2 powi e"
proof (cases "0 \<le> e")
  case True
  then show ?thesis by (simp add: pow2_def power_int_def)
next
  case False
  have "inverse (2::rat) ^ nat (- e) = 1 / 2 ^ nat (- e)"
    by (simp only: inverse_eq_divide power_one_over)
  with False show ?thesis by (simp only: pow2_def power_int_def if_False)
qed

lemma pow2_pos: "0 < pow2 e"
  by (simp add: pow2_powi)

lemma pow2_nonzero [simp]: "pow2 e \<noteq> 0"
  using pow2_pos [of e] by linarith

lemma pow2_add: "pow2 (a + b) = pow2 a * pow2 b"
  by (simp add: pow2_powi power_int_add)

lemma pow2_less: "a < b \<Longrightarrow> pow2 a < pow2 b"
  by (simp add: pow2_powi power_int_strict_increasing)

lemma pow2_le: "a \<le> b \<Longrightarrow> pow2 a \<le> pow2 b"
  by (simp add: pow2_powi power_int_increasing)

lemma pow2_less_imp: "pow2 a < pow2 b \<Longrightarrow> a < b"
  using pow2_le [of b a] by (cases "a < b") auto

lemma pow2_le_imp: "pow2 a \<le> pow2 b \<Longrightarrow> a \<le> b"
  using pow2_less [of b a] by (cases "a \<le> b") auto

lemma pow2_nat: "0 \<le> e \<Longrightarrow> pow2 e = of_int (2 ^ nat e)"
  by (simp add: pow2_def)

lemma pow2_0 [simp]: "pow2 0 = 1"
  by (simp add: pow2_def)

lemma pow2_diff: "pow2 (a - b) = pow2 a / pow2 b"
proof -
  have "pow2 (a - b) * pow2 b = pow2 a" using pow2_add [of "a - b" b] by simp
  then show ?thesis by (simp add: eq_divide_eq)
qed

lemma bitlen_rat_bounds:
  assumes "0 < a"
  shows "pow2 (bitlen a - 1) \<le> of_int a" and "(of_int a :: rat) < pow2 (bitlen a)"
proof -
  from assms have b1: "1 \<le> bitlen a" by (auto simp: bitlen_alt_def)
  have lo: "2 ^ nat (bitlen a - 1) \<le> a" and hi: "a < 2 ^ nat (bitlen a)"
    using bitlen_bounds [OF assms] by simp_all
  have "pow2 (bitlen a - 1) = of_int (2 ^ nat (bitlen a - 1))"
    using b1 by (simp add: pow2_nat)
  also have "\<dots> \<le> of_int a" using lo by (simp only: of_int_le_iff)
  finally show "pow2 (bitlen a - 1) \<le> of_int a" .
  have "(of_int a :: rat) < of_int (2 ^ nat (bitlen a))" using hi by (simp only: of_int_less_iff)
  also have "\<dots> = pow2 (bitlen a)" using b1 by (simp add: pow2_nat)
  finally show "(of_int a :: rat) < pow2 (bitlen a)" .
qed

lemma ilog2_bounds:
  assumes "0 < q"
  shows "pow2 (ilog2 q) \<le> q" and "q < pow2 (ilog2 q + 1)"
proof -
  obtain a b where ab: "quotient_of q = (a, b)" by (cases "quotient_of q")
  then have b: "0 < b" using quotient_of_denom_pos by blast
  have q: "q = of_int a / of_int b" using ab by (rule quotient_of_div)
  have a: "0 < a"
    using assms b unfolding q by (simp add: zero_less_divide_iff)
  define d where "d = bitlen a - bitlen b"
  note A = bitlen_rat_bounds [OF a] and B = bitlen_rat_bounds [OF b]
  have bp: "(0::rat) < of_int b" using b by simp
  have lo: "pow2 (d - 1) < q"
  proof -
    have "pow2 (d - 1) = pow2 (bitlen a - 1) / pow2 (bitlen b)"
      unfolding d_def using pow2_diff [of "bitlen a - 1" "bitlen b"] by (simp add: algebra_simps)
    also have "\<dots> \<le> of_int a / pow2 (bitlen b)"
      using A(1) pow2_pos [of "bitlen b"] by (intro divide_right_mono) simp_all
    also have "\<dots> < of_int a / of_int b"
      using B(2) a bp by (intro divide_strict_left_mono) simp_all
    finally show ?thesis unfolding q .
  qed
  have hi: "q < pow2 (d + 1)"
  proof -
    have "q \<le> of_int a / pow2 (bitlen b - 1)"
      unfolding q using B(1) a pow2_pos [of "bitlen b - 1"] by (intro divide_left_mono) simp_all
    also have "\<dots> < pow2 (bitlen a) / pow2 (bitlen b - 1)"
      using A(2) pow2_pos [of "bitlen b - 1"] by (intro divide_strict_right_mono) simp_all
    also have "\<dots> = pow2 (d + 1)"
      unfolding d_def using pow2_diff [of "bitlen a" "bitlen b - 1"] by (simp add: algebra_simps)
    finally show ?thesis .
  qed
  have i: "ilog2 q = (if pow2 d \<le> q then d else d - 1)"
    by (simp add: ilog2_def ab d_def Let_def)
  show "pow2 (ilog2 q) \<le> q" using lo by (auto simp: i)
  show "q < pow2 (ilog2 q + 1)" using hi by (auto simp: i)
qed

lemma round_even_int [simp]: "round_even (of_int k) = k"
  by (simp add: round_even_def)

lemma round_even_lower: "of_int a \<le> x \<Longrightarrow> a \<le> round_even x"
proof -
  assume "of_int a \<le> x"
  then have "a \<le> \<lfloor>x\<rfloor>" by (simp add: le_floor_iff)
  then show ?thesis by (auto simp: round_even_def Let_def)
qed

lemma round_even_upper: "x \<le> of_int b \<Longrightarrow> round_even x \<le> b"
proof -
  assume b: "x \<le> of_int b"
  then have f: "\<lfloor>x\<rfloor> \<le> b" using floor_mono [of x "of_int b"] by simp
  show ?thesis
  proof (cases "x - of_int \<lfloor>x\<rfloor> < 1 / 2")
    case True
    then show ?thesis using f by (simp add: round_even_def Let_def)
  next
    case False
    then have "of_int \<lfloor>x\<rfloor> < x" by simp
    with b have "(of_int \<lfloor>x\<rfloor> :: rat) < of_int b" by linarith
    then have "\<lfloor>x\<rfloor> < b" by (simp only: of_int_less_iff)
    then show ?thesis by (auto simp: round_even_def Let_def)
  qed
qed

lemma round_away_int [simp]: "round_away (of_int k) = k"
proof -
  have "\<lfloor>(of_int k :: rat) + 1 / 2\<rfloor> = k" by (simp add: floor_unique)
  moreover have "\<lfloor>- (of_int k :: rat) + 1 / 2\<rfloor> = - k"
    using floor_unique [of "- k" "- (of_int k :: rat) + 1 / 2"] by simp
  ultimately show ?thesis by (simp add: round_away_def)
qed

lemma half_floor_near:
  fixes t :: rat
  assumes "0 \<le> t"
  shows "\<bar>t - of_int \<lfloor>t + 1 / 2\<rfloor>\<bar> \<le> t"
proof (cases "t < 1 / 2")
  case True
  have "\<lfloor>t + 1 / 2\<rfloor> = 0" using assms True by (intro floor_unique) simp_all
  then show ?thesis using assms by simp
next
  case False
  have 1: "of_int \<lfloor>t + 1 / 2\<rfloor> \<le> t + 1 / 2" by (rule of_int_floor_le)
  have 2: "t + 1 / 2 < of_int \<lfloor>t + 1 / 2\<rfloor> + 1"
    using floor_correct [of "t + 1 / 2"] by simp
  have 3: "(0::rat) \<le> of_int \<lfloor>t + 1 / 2\<rfloor>" using assms by simp
  from 1 3 False show ?thesis by (intro abs_leI) linarith+
qed

lemma round_away_near: "\<bar>s - of_int (round_away s)\<bar> \<le> \<bar>s\<bar>"
proof (cases "0 \<le> s")
  case True
  then show ?thesis using half_floor_near [of s] by (simp add: round_away_def)
next
  case False
  then have t: "0 \<le> - s" by simp
  have "\<bar>s - of_int (round_away s)\<bar> = \<bar>- s - of_int \<lfloor>- s + 1 / 2\<rfloor>\<bar>"
    using False by (simp add: round_away_def abs_minus_commute [of s] algebra_simps)
  also have "\<dots> \<le> - s" by (rule half_floor_near [OF t])
  finally show ?thesis using False by simp
qed

lemma pow2_53: "pow2 53 = 2 ^ 53" and pow2_1: "pow2 1 = 2"
  by (simp_all add: pow2_def)

lemma on_grid_0: "on_grid 0"
proof -
  have "(0::rat) = of_int 0 * pow2 0 \<and> \<bar>0::int\<bar> < 2 ^ 53 \<and> (- 1074 :: int) \<le> 0" by simp
  then show ?thesis unfolding on_grid_def using pow2_pos [of 1024] by (simp del: pow2_0) blast
qed

lemma round64_on_grid:
  assumes "round64 q = Finite v"
  shows "on_grid v"
proof (cases "q = 0")
  case True
  with assms show ?thesis by (simp add: round64_def on_grid_0)
next
  case False
  define l where "l = ilog2 \<bar>q\<bar>"
  define e where "e = max (l - 52) (- 1074)"
  define m where "m = round_even (q / pow2 e)"
  have v: "v = of_int m * pow2 e" and no: "\<not> 1024 \<le> ilog2 \<bar>v\<bar>"
    using assms False
    by (auto simp: round64_def Let_def l_def e_def m_def split: if_splits)
  have qpos: "0 < \<bar>q\<bar>" using False by simp
  have "\<bar>q\<bar> < pow2 (l + 1)" unfolding l_def by (rule ilog2_bounds(2) [OF qpos])
  also have "\<dots> \<le> pow2 (e + 53)" by (rule pow2_le) (simp add: e_def)
  also have "\<dots> = pow2 e * 2 ^ 53" by (simp only: pow2_add pow2_53)
  finally have "\<bar>q\<bar> / pow2 e < 2 ^ 53"
    using pow2_pos [of e] by (simp add: pos_divide_less_eq mult.commute)
  then have "\<bar>q / pow2 e\<bar> < 2 ^ 53" using pow2_pos [of e] by (simp add: abs_divide)
  then have "- (2 ^ 53) < q / pow2 e \<and> q / pow2 e < 2 ^ 53"
    unfolding abs_less_iff by linarith
  then have b: "of_int (- (2 ^ 53)) \<le> q / pow2 e" "q / pow2 e \<le> of_int (2 ^ 53)"
    by simp_all
  have mb: "- (2 ^ 53) \<le> m" "m \<le> 2 ^ 53"
    unfolding m_def using round_even_lower [OF b(1)] round_even_upper [OF b(2)] by simp_all
  have el: "- 1074 \<le> e" by (simp add: e_def)
  have bound: "\<bar>v\<bar> < pow2 1024"
  proof (cases "v = 0")
    case True
    then show ?thesis using pow2_pos [of 1024] by simp
  next
    case False
    then have "0 < \<bar>v\<bar>" by simp
    from ilog2_bounds(2) [OF this] have "\<bar>v\<bar> < pow2 (ilog2 \<bar>v\<bar> + 1)" .
    also have "\<dots> \<le> pow2 1024" by (rule pow2_le) (use no in simp)
    finally show ?thesis .
  qed
  have "\<exists>m' e'. v = of_int m' * pow2 e' \<and> \<bar>m'\<bar> < 2 ^ 53 \<and> - 1074 \<le> e'"
  proof (cases "\<bar>m\<bar> < 2 ^ 53")
    case True
    with v el show ?thesis by blast
  next
    case False
    with mb have "m = 2 ^ 53 \<or> m = - (2 ^ 53)" by linarith
    then have h: "m = 2 * (m div 2)" "\<bar>m div 2\<bar> < 2 ^ 53" by auto
    have p1: "pow2 (e + 1) = pow2 e * 2" by (simp only: pow2_add pow2_1)
    have "of_int m * pow2 e = of_int (2 * (m div 2)) * pow2 e" using h(1) by simp
    also have "\<dots> = of_int (m div 2) * pow2 (e + 1)" unfolding p1 by simp
    finally have "v = of_int (m div 2) * pow2 (e + 1) \<and> \<bar>m div 2\<bar> < 2 ^ 53"
      unfolding v using h(2) by simp
    moreover have "- 1074 \<le> e + 1" using el by simp
    ultimately show ?thesis by blast
  qed
  with bound show ?thesis by (simp add: on_grid_def)
qed

lemma round64_grid_id:
  assumes "on_grid v"
  shows "round64 v = Finite v"
proof (cases "v = 0")
  case True
  then show ?thesis by (simp add: round64_def)
next
  case False
  from assms obtain m e where v: "v = of_int m * pow2 e" and m: "\<bar>m\<bar> < 2 ^ 53"
    and e: "- 1074 \<le> e" and bound: "\<bar>v\<bar> < pow2 1024"
    by (auto simp: on_grid_def)
  define l where "l = ilog2 \<bar>v\<bar>"
  define e' where "e' = max (l - 52) (- 1074)"
  have vpos: "0 < \<bar>v\<bar>" using False by simp
  have "pow2 l \<le> \<bar>v\<bar>" unfolding l_def by (rule ilog2_bounds(1) [OF vpos])
  also have "\<bar>v\<bar> = of_int \<bar>m\<bar> * pow2 e"
    unfolding v using pow2_pos [of e] by (simp add: abs_mult)
  also have "\<dots> < of_int (2 ^ 53) * pow2 e"
    using m pow2_pos [of e] by (intro mult_strict_right_mono) (simp_all only: of_int_less_iff)
  also have "\<dots> = pow2 (53 + e)" by (simp only: pow2_add pow2_53) simp
  finally have "l < 53 + e" by (rule pow2_less_imp)
  then have le: "e' \<le> e" using e by (simp add: e'_def)
  define k where "k = m * 2 ^ nat (e - e')"
  have "pow2 e = pow2 (e - e') * pow2 e'" using pow2_add [of "e - e'" e'] by simp
  also have "pow2 (e - e') = of_int (2 ^ nat (e - e'))" using le by (simp add: pow2_nat)
  finally have pe: "pow2 e = of_int (2 ^ nat (e - e')) * pow2 e'" .
  have vk: "v = of_int k * pow2 e'" unfolding v k_def pe by simp
  then have "v / pow2 e' = of_int k" by simp
  then have r: "round_even (v / pow2 e') = k" by simp
  have no: "\<not> 1024 \<le> l"
  proof
    assume "1024 \<le> l"
    then have "pow2 1024 \<le> pow2 l" by (rule pow2_le)
    also have "\<dots> \<le> \<bar>v\<bar>" unfolding l_def by (rule ilog2_bounds(1) [OF vpos])
    finally show False using bound by simp
  qed
  have 1: "of_int (round_even (v / pow2 e')) * pow2 e' = v"
    unfolding r using vk by simp
  have "round64 v =
      (if 1024 \<le> ilog2 \<bar>of_int (round_even (v / pow2 e')) * pow2 e'\<bar>
       then (if 0 < v then PosInf else NegInf)
       else Finite (of_int (round_even (v / pow2 e')) * pow2 e'))"
    using False by (simp add: round64_def Let_def l_def e'_def)
  also have "\<dots> = Finite v" unfolding 1 using no by (simp add: l_def)
  finally show ?thesis .
qed

lemma on_grid_frac:
  assumes "on_grid s"
  shows "on_grid (s - of_int (round_away s))"
proof -
  from assms obtain m e where s: "s = of_int m * pow2 e" and m: "\<bar>m\<bar> < 2 ^ 53"
    and e: "- 1074 \<le> e" and bound: "\<bar>s\<bar> < pow2 1024"
    by (auto simp: on_grid_def)
  let ?d = "s - of_int (round_away s)"
  have near: "\<bar>?d\<bar> \<le> \<bar>s\<bar>" by (rule round_away_near)
  show ?thesis
  proof (cases "0 \<le> e")
    case True
    then have "s = of_int (m * 2 ^ nat e)" unfolding s by (simp add: pow2_nat)
    then have "?d = 0" by (simp del: of_int_mult of_int_power)
    then show ?thesis by (simp add: on_grid_0)
  next
    case False
    define p where "p = (2::int) ^ nat (- e)"
    have pe: "pow2 e * of_int p = 1"
      using False by (simp add: pow2_def p_def)
    define m' where "m' = m - round_away s * p"
    have "of_int m' * pow2 e = of_int m * pow2 e - of_int (round_away s) * (pow2 e * of_int p)"
      unfolding m'_def by (simp add: algebra_simps)
    then have d: "?d = of_int m' * pow2 e" unfolding s [symmetric] pe by simp
    have "of_int \<bar>m'\<bar> * pow2 e = \<bar>?d\<bar>"
      unfolding d using pow2_pos [of e] by (simp add: abs_mult)
    also have "\<dots> \<le> \<bar>s\<bar>" by (rule near)
    also have "\<dots> = of_int \<bar>m\<bar> * pow2 e"
      unfolding s using pow2_pos [of e] by (simp add: abs_mult)
    finally have "(of_int \<bar>m'\<bar> :: rat) \<le> of_int \<bar>m\<bar>"
      using pow2_pos [of e] by (simp only: mult_le_cancel_right_pos)
    then have "\<bar>m'\<bar> \<le> \<bar>m\<bar>" by (simp only: of_int_le_iff)
    with m have "\<bar>m'\<bar> < 2 ^ 53" by linarith
    moreover have "\<bar>?d\<bar> < pow2 1024" using near bound by linarith
    ultimately show ?thesis unfolding on_grid_def using d e by blast
  qed
qed

lemma eps64_value: "round64 (1 / 10 ^ 9) = Finite eps64"
  by code_simp

lemma eps64_value': "round64 (1 / 1000000000) = Finite eps64"
  using eps64_value by simp

lemma near64_exact:
  "near64 x =
     (case round64 (x * 100) of
        Finite s \<Rightarrow> \<bar>s - of_int (round_away s)\<bar> < eps64
      | _ \<Rightarrow> False)"
proof (cases "round64 (x * 100)")
  case (Finite s)
  then have "on_grid s" by (rule round64_on_grid)
  then have "round64 (s - of_int (round_away s)) = Finite (s - of_int (round_away s))"
    by (intro round64_grid_id on_grid_frac)
  with Finite show ?thesis by (simp add: near64_def Let_def eps64_value')
qed (simp_all add: near64_def Let_def eps64_value')

section \<open>Lemmas: evaluations of the URL engine\<close>

lemma zone_url_all: "processURL plain_library ''all'' zone_url = Inl ''unexpected parse error''"
  unfolding zone_url_def by code_simp

lemma zone_url_parse:
  "Parse plain_library zone_url =
   Some \<lparr>Scheme = ''http'', Opaque = [], User = None,
         Host = ''[fe80::1%'' @ [CHR 0xC3, CHR 0xA9] @ '']'', Path = ''/x'', RawPath = [],
         OmitHost = False, ForceQuery = False, RawQuery = [], Fragment = [], RawFragment = []\<rparr>"
  unfolding zone_url_def by code_simp

lemma zone_url_redirection:
  "processURL plain_library ''redirection'' zone_url = Inr ''http://[fe80::1%25%C3%A9]/x''"
  unfolding zone_url_def by code_simp

lemma canonical_two_slashes:
  "processURL plain_library ''canonical'' ''https://example.com/a//'' = Inr ''https://example.com/a/''"
  by code_simp

lemma canonical_one_slash:
  "processURL plain_library ''canonical'' ''https://example.com/a/'' = Inr ''https://example.com/a''"
  by code_simp

lemma redirection_reorders:
  "processURL plain_library ''redirection'' ''https://example.com/p?b=1&a=2'' =
   Inr ''https://www.example.com/p?a=2&b=1''"
  by code_simp

lemma redirection_scenario:
  "processURL plain_library ''redirection'' ''https://example.com/Path/To/?x=1&y=2'' =
   Inr ''https://www.example.com/path/to?x=1&y=2''"
  by code_simp

lemma canonical_not_a_url: "processURL lib ''canonical'' ''not-a-url'' = Inl ''invalid url''"
  by code_simp

section \<open>Lemmas: escaping\<close>

lemma upperhex_facts:
  "\<forall>n\<in>{0..<16}. ishex (upperhex n) \<and> unhex (upperhex n) = n \<and>
     (isDigit (upperhex n) \<or> isAlpha (upperhex n))"
  by code_simp

lemma upperhex_ishex: "n < 16 \<Longrightarrow> ishex (upperhex n)"
  and upperhex_unhex: "n < 16 \<Longrightarrow> unhex (upperhex n) = n"
  and upperhex_alnum: "n < 16 \<Longrightarrow> isDigit (upperhex n) \<or> isAlpha (upperhex n)"
  using upperhex_facts by auto

lemma byte_lt_256: "(of_char (c :: char) :: nat) < 256"
  by (rule of_char_mod_256 [THEN subst, where P = "\<lambda>x. x < 256"]) simp

lemma byte_div_mod:
  fixes c :: char
  shows "(of_char c :: nat) div 16 < 16" and "(of_char c :: nat) mod 16 < 16"
    and "char_of ((of_char c :: nat) div 16 * 16 + (of_char c :: nat) mod 16) = c"
  using byte_lt_256 [of c] by (simp_all add: less_mult_imp_div_less)

lemma unhex_escape:
  fixes c :: char
  shows "char_of (unhex (upperhex ((of_char c :: nat) div 16)) * 16 +
                  unhex (upperhex ((of_char c :: nat) mod 16))) = c"
  by (simp add: upperhex_unhex byte_div_mod)

lemma shouldEscape_percent [simp]: "shouldEscape (CHR ''%'') mode"
  by (cases mode) (simp_all add: shouldEscape_def isAlpha_def isDigit_def)

lemma shouldEscape_plus_query [simp]: "shouldEscape (CHR ''+'') encodeQueryComponent"
  by (simp add: shouldEscape_def isAlpha_def isDigit_def)

lemma escape_Nil [simp]: "escape [] mode = []"
  by (simp add: escape_def)

lemma escape_Cons: "escape (c # s) mode = escape_byte mode c @ escape s mode"
  by (simp add: escape_def)

lemma escape_append: "escape (a @ b) mode = escape a mode @ escape b mode"
  by (simp add: escape_def)

lemma unescape_escape_byte:
  assumes "mode \<noteq> encodeHost" "mode \<noteq> encodeZone"
  shows "unescape_ok (escape_byte mode c @ rest) mode = unescape_ok rest mode"
    and "unescape_build (escape_byte mode c @ rest) mode = c # unescape_build rest mode"
proof -
  have a: "unescape_ok (escape_byte mode c @ rest) mode = unescape_ok rest mode \<and>
           unescape_build (escape_byte mode c @ rest) mode = c # unescape_build rest mode"
  proof (cases "shouldEscape c mode")
    case True
    show ?thesis
    proof (cases "c = CHR '' '' \<and> mode = encodeQueryComponent")
      case True
      with \<open>shouldEscape c mode\<close> show ?thesis by (simp add: escape_byte_def)
    next
      case False
      with True assms show ?thesis
        by (simp add: escape_byte_def upperhex_ishex byte_div_mod unhex_escape)
    qed
  next
    case False
    then have np: "c \<noteq> CHR ''%''" using shouldEscape_percent by blast
    from False have "c = CHR ''+'' \<Longrightarrow> mode \<noteq> encodeQueryComponent"
      using shouldEscape_plus_query by blast
    with False np assms show ?thesis by (auto simp: escape_byte_def)
  qed
  from a show "unescape_ok (escape_byte mode c @ rest) mode = unescape_ok rest mode" by blast
  from a show "unescape_build (escape_byte mode c @ rest) mode = c # unescape_build rest mode"
    by blast
qed

lemma unescape_escape:
  assumes "mode \<noteq> encodeHost" "mode \<noteq> encodeZone"
  shows "unescape (escape s mode) mode = Some s"
proof -
  have "unescape_ok (escape s mode) mode \<and> unescape_build (escape s mode) mode = s"
    by (induction s) (simp_all add: escape_Cons unescape_escape_byte [OF assms])
  then show ?thesis by (simp add: unescape_def)
qed

lemma Cut_notin: "c \<notin> set s \<Longrightarrow> Cut s c = (s, [], False)"
  by (simp add: Cut_def)

lemma Cut_append:
  assumes "c \<notin> set a"
  shows "Cut (a @ c # b) c = (a, b, True)"
proof -
  have n: "\<And>x. x \<in> set a \<Longrightarrow> x \<noteq> c" using assms by auto
  have "takeWhile (\<lambda>x. x \<noteq> c) (a @ c # b) = a"
    using n by (simp add: takeWhile_append2)
  moreover have "dropWhile (\<lambda>x. x \<noteq> c) (a @ c # b) = c # b"
    using n by (simp add: dropWhile_append2)
  ultimately show ?thesis by (simp add: Cut_def)
qed

lemma TrimSuffix_slash: "TrimSuffix (v @ ''/'') ''/'' = v"
  and TrimSuffix_no_slash: "\<not> suffix ''/'' v \<Longrightarrow> TrimSuffix v ''/'' = v"
  by (simp_all add: TrimSuffix_def)

section \<open>Claims about the book validator\<close>

text \<open>
  Claim C3. \<^verbatim>\<open>isValidISBN\<close> accepts a string exactly when its normalized form (spaces and
  hyphens removed, upper-cased) satisfies the specification's ISBN-10 rule or its ISBN-13
  rule. For a string of ASCII bytes the normalized form is \<open>spec_normalized\<close>, written
  from the specification's words. For a string with a byte outside ASCII the upper-casing
  is the library's Unicode mapping, the parameter \<open>uni\<close>, applied to the string without
  its spaces and hyphens.
\<close>

theorem isValidISBN_iff_spec:
  "(list_all is_ascii s \<longrightarrow>
      (isValidISBN uni s \<longleftrightarrow> spec_isbn10 (spec_normalized s) \<or> spec_isbn13 (spec_normalized s))) \<and>
   (\<not> list_all is_ascii s \<longrightarrow>
      (isValidISBN uni s \<longleftrightarrow>
         spec_isbn10 (uni (spec_strip s)) \<or> spec_isbn13 (uni (spec_strip s))))"
  using isValidISBN_spec_rules [of uni s] normalizeISBN_ascii [of s uni]
    normalizeISBN_other [of s uni]
  by auto

theorem isValidISBN_iff_spec_witness:
  "list_all is_ascii ''0-8044 2957-x'' \<and> spec_normalized ''0-8044 2957-x'' = ''080442957X'' \<and>
   isValidISBN (\<lambda>s. s) ''0-8044 2957-x'' \<and> spec_isbn10 ''080442957X''"
proof -
  have a: "list_all is_ascii ''0-8044 2957-x''" by (simp add: is_ascii_def)
  have n: "spec_normalized ''0-8044 2957-x'' = ''080442957X''"
    by (simp add: spec_normalized_def spec_strip_def spec_upper_def)
  have s: "spec_isbn10 ''080442957X''"
    using example_x by (simp add: isValidISBN10_spec)
  show ?thesis
    using isValidISBN_iff_spec [of "''0-8044 2957-x''" "\<lambda>s. s"] a n s by simp
qed

text \<open>
  Claim C7. \<^verbatim>\<open>"0306406152"\<close> and \<^verbatim>\<open>"9780306406157"\<close> are accepted by \<^verbatim>\<open>isValidISBN\<close>, and
  in a valid ISBN-10 or ISBN-13 candidate the replacement of any one digit by a different
  digit makes the checksum fail (and \<^verbatim>\<open>isValidISBN\<close> reject the result).
\<close>

theorem isbn_single_digit_errors_detected:
  "isValidISBN uni ''0306406152'' \<and> isValidISBN uni ''9780306406157'' \<and>
   (\<forall>s i d. isValidISBN10 s \<and> i < 10 \<and> isDigit (s ! i) \<and> isDigit d \<and> d \<noteq> s ! i \<longrightarrow>
      \<not> isValidISBN10 (s[i := d]) \<and> \<not> isValidISBN uni (s[i := d])) \<and>
   (\<forall>s i d. isValidISBN13 s \<and> i < 13 \<and> isDigit (s ! i) \<and> isDigit d \<and> d \<noteq> s ! i \<longrightarrow>
      \<not> isValidISBN13 (s[i := d]) \<and> \<not> isValidISBN uni (s[i := d]))"
proof (intro conjI allI impI)
  show "isValidISBN uni ''0306406152''"
    using example_isbn10 isValidISBN_candidate10 isValidISBN10_re by blast
  show "isValidISBN uni ''9780306406157''"
    using example_isbn13 isValidISBN_candidate13 isValidISBN13_re by blast
next
  fix s i d
  assume h: "isValidISBN10 s \<and> i < 10 \<and> isDigit (s ! i) \<and> isDigit d \<and> d \<noteq> s ! i"
  then show n: "\<not> isValidISBN10 (s[i := d])" using isbn10_single_digit by blast
  from h have "reIsbn10 (s[i := d])" using isValidISBN10_re reIsbn10_update by blast
  then show "\<not> isValidISBN uni (s[i := d])" using n isValidISBN_candidate10 by blast
next
  fix s i d
  assume h: "isValidISBN13 s \<and> i < 13 \<and> isDigit (s ! i) \<and> isDigit d \<and> d \<noteq> s ! i"
  then show n: "\<not> isValidISBN13 (s[i := d])" using isbn13_single_digit by blast
  from h have "reIsbn13 (s[i := d])" using isValidISBN13_re reIsbn13_update by blast
  then show "\<not> isValidISBN uni (s[i := d])" using n isValidISBN_candidate13 by blast
qed

theorem isbn_single_digit_errors_detected_witness:
  "isValidISBN10 ''0306406152'' \<and> \<not> isValidISBN10 (''0306406152''[3 := CHR ''7'']) \<and>
   isValidISBN13 ''9780306406157'' \<and> \<not> isValidISBN13 (''9780306406157''[12 := CHR ''8''])"
proof -
  have a: "(3::nat) < 10 \<and> isDigit (''0306406152'' ! 3) \<and> isDigit (CHR ''7'') \<and>
           CHR ''7'' \<noteq> ''0306406152'' ! 3"
    by (simp add: isDigit_def)
  have b: "(12::nat) < 13 \<and> isDigit (''9780306406157'' ! 12) \<and> isDigit (CHR ''8'') \<and>
           CHR ''8'' \<noteq> ''9780306406157'' ! 12"
    by (simp add: isDigit_def)
  show ?thesis
    using isbn_single_digit_errors_detected [of "\<lambda>s. s"] example_isbn10 example_isbn13 a b
    by blast
qed

text \<open>
  Claim C2. \<^verbatim>\<open>validateAndNormalizeCreate\<close> checks all five fields whatever the earlier
  ones gave: when every field is invalid, the returned error has exactly five entries,
  one for each of \<^verbatim>\<open>title\<close>, \<^verbatim>\<open>author\<close>, \<^verbatim>\<open>isbn\<close>, \<^verbatim>\<open>publication_year\<close> and \<^verbatim>\<open>price\<close>,
  each carrying the message of the first rule its field breaks; recording another message
  for a field that has one leaves the set as it is.
\<close>

theorem create_all_invalid_reports_five:
  assumes "TrimSpace (Title i) = [] \<or> length (TrimSpace (Title i)) > 120"
    and "TrimSpace (Author i) = [] \<or> length (TrimSpace (Author i)) > 80"
    and "TrimSpace (ISBN i) = [] \<or> \<not> isValidISBN uni (TrimSpace (ISBN i))"
    and "PublicationYear i = 0 \<or> \<not> isValidFourDigitYearInt (PublicationYear i)"
    and "f_less (Price i) (Finite 0) \<or> f_less (Finite 1000000) (Price i) \<or>
         \<not> hasMax2Decimals near (Price i)"
  shows "let e = [(''title'', if TrimSpace (Title i) = [] then ''Title is required''
                               else msg_title_long),
                  (''author'', if TrimSpace (Author i) = [] then ''Author is required''
                               else msg_author_long),
                  (''isbn'', if TrimSpace (ISBN i) = [] then ''ISBN is required''
                             else msg_isbn_invalid),
                  (''publication_year'', if PublicationYear i = 0
                             then ''Publication year is required'' else msg_year_digits),
                  (''price'', if f_less (Price i) (Finite 0) then msg_price_neg
                              else if f_less (Finite 1000000) (Price i) then ''Price is too large''
                              else ''Max 2 decimal places'')]
         in snd (validateAndNormalizeCreate uni near i) = Some e \<and>
            length e = 5 \<and>
            map fst e = [''title'', ''author'', ''isbn'', ''publication_year'', ''price''] \<and>
            (\<forall>f m. f \<in> set (map fst e) \<longrightarrow> add e f m = e)"
proof -
  define e where "e = [(''title'', if TrimSpace (Title i) = [] then ''Title is required''
                               else msg_title_long),
                  (''author'', if TrimSpace (Author i) = [] then ''Author is required''
                               else msg_author_long),
                  (''isbn'', if TrimSpace (ISBN i) = [] then ''ISBN is required''
                             else msg_isbn_invalid),
                  (''publication_year'', if PublicationYear i = 0
                             then ''Publication year is required'' else msg_year_digits),
                  (''price'', if f_less (Price i) (Finite 0) then msg_price_neg
                              else if f_less (Finite 1000000) (Price i) then ''Price is too large''
                              else ''Max 2 decimal places'')]"
  have 1: "(if TrimSpace (Title i) = [] then [(''title'', ''Title is required'')]
        else if length (TrimSpace (Title i)) > 120 then [(''title'', msg_title_long)] else []) =
        [(''title'', if TrimSpace (Title i) = [] then ''Title is required'' else msg_title_long)]"
    using assms(1) by auto
  have 2: "(if TrimSpace (Author i) = [] then [(''author'', ''Author is required'')]
        else if length (TrimSpace (Author i)) > 80 then [(''author'', msg_author_long)] else []) =
        [(''author'', if TrimSpace (Author i) = [] then ''Author is required'' else msg_author_long)]"
    using assms(2) by auto
  have 3: "(if TrimSpace (ISBN i) = [] then [(''isbn'', ''ISBN is required'')]
        else if \<not> isValidISBN uni (TrimSpace (ISBN i)) then [(''isbn'', msg_isbn_invalid)] else []) =
        [(''isbn'', if TrimSpace (ISBN i) = [] then ''ISBN is required'' else msg_isbn_invalid)]"
    using assms(3) by auto
  have 4: "(if PublicationYear i = 0 then [(''publication_year'', ''Publication year is required'')]
        else if \<not> isValidFourDigitYearInt (PublicationYear i)
        then [(''publication_year'', msg_year_digits)] else []) =
        [(''publication_year'', if PublicationYear i = 0
                             then ''Publication year is required'' else msg_year_digits)]"
    using assms(4) by auto
  have 5: "(if f_less (Price i) (Finite 0) then [(''price'', msg_price_neg)]
        else if f_less (Finite 1000000) (Price i) then [(''price'', ''Price is too large'')]
        else if \<not> hasMax2Decimals near (Price i) then [(''price'', ''Max 2 decimal places'')]
        else []) =
        [(''price'', if f_less (Price i) (Finite 0) then msg_price_neg
                              else if f_less (Finite 1000000) (Price i) then ''Price is too large''
                              else ''Max 2 decimal places'')]"
    using assms(5) by auto
  have "errors_of (snd (validateAndNormalizeCreate uni near i)) = e"
    unfolding create_errors 1 2 3 4 5 e_def by simp
  moreover have "e \<noteq> []" by (simp add: e_def)
  ultimately have s: "snd (validateAndNormalizeCreate uni near i) = Some e"
    by (rule errors_Some)
  have l: "length e = 5" by (simp add: e_def)
  have m: "map fst e = [''title'', ''author'', ''isbn'', ''publication_year'', ''price'']"
    by (simp add: e_def)
  have a: "\<forall>f m. f \<in> set (map fst e) \<longrightarrow> add e f m = e"
    using add_present by auto
  show ?thesis
    unfolding Let_def e_def [symmetric] using s l m a by blast
qed

theorem create_all_invalid_reports_five_witness:
  "snd (validateAndNormalizeCreate (\<lambda>s. s) (\<lambda>x. True)
          \<lparr>Title = '' '', Author = [], ISBN = ''bad-isbn'', Price = Finite (- 1),
           PublicationYear = 123\<rparr>) =
     Some [(''title'', ''Title is required''), (''author'', ''Author is required''),
           (''isbn'', msg_isbn_invalid), (''publication_year'', msg_year_digits),
           (''price'', msg_price_neg)]"
  using create_all_invalid_reports_five [of
      "\<lparr>Title = '' '', Author = [], ISBN = ''bad-isbn'', Price = Finite (- 1),
           PublicationYear = 123\<rparr>" "\<lambda>s. s" "\<lambda>x. True"]
  by (simp add: TrimSpace_blank TrimSpace_empty TrimSpace_bad bad_isbn
      isValidFourDigitYearInt_def minYear_def maxYear_def Let_def)

text \<open>
  Claim C6. \<^verbatim>\<open>validateAndNormalizeUpdate\<close> on a patch in which only \<^verbatim>\<open>price\<close> is present:
  title, author, isbn and publication year are still absent in the returned patch, no
  error is recorded for them, the price is still present with its value, and the call
  succeeds exactly when the price is valid.
\<close>

theorem update_only_price:
  assumes "uTitle i = None" "uAuthor i = None" "uISBN i = None" "uPublicationYear i = None"
    and "uPrice i = Some p"
  shows "uTitle (fst (validateAndNormalizeUpdate uni near i)) = None \<and>
         uAuthor (fst (validateAndNormalizeUpdate uni near i)) = None \<and>
         uISBN (fst (validateAndNormalizeUpdate uni near i)) = None \<and>
         uPublicationYear (fst (validateAndNormalizeUpdate uni near i)) = None \<and>
         uPrice (fst (validateAndNormalizeUpdate uni near i)) = Some p \<and>
         fst ` set (errors_of (snd (validateAndNormalizeUpdate uni near i))) \<subseteq> {''price''} \<and>
         (snd (validateAndNormalizeUpdate uni near i) = None \<longleftrightarrow>
            \<not> f_less p (Finite 0) \<and> \<not> f_less (Finite 1000000) p \<and> hasMax2Decimals near p)"
  using assms by (auto simp: update_fst update_ok_iff update_errors split: if_splits)

theorem update_only_price_witness:
  "validateAndNormalizeUpdate (\<lambda>s. s) (\<lambda>x. True)
     \<lparr>uTitle = None, uAuthor = None, uISBN = None, uPrice = Some (Finite (25 / 2)),
      uPublicationYear = None\<rparr> =
   (\<lparr>uTitle = None, uAuthor = None, uISBN = None, uPrice = Some (Finite (25 / 2)),
      uPublicationYear = None\<rparr>, None)"
proof -
  let ?i = "\<lparr>uTitle = None, uAuthor = None, uISBN = None, uPrice = Some (Finite (25 / 2)),
      uPublicationYear = None\<rparr>"
  have "uTitle (fst (validateAndNormalizeUpdate (\<lambda>s. s) (\<lambda>x. True) ?i)) = None \<and>
         uAuthor (fst (validateAndNormalizeUpdate (\<lambda>s. s) (\<lambda>x. True) ?i)) = None \<and>
         uISBN (fst (validateAndNormalizeUpdate (\<lambda>s. s) (\<lambda>x. True) ?i)) = None \<and>
         uPublicationYear (fst (validateAndNormalizeUpdate (\<lambda>s. s) (\<lambda>x. True) ?i)) = None \<and>
         uPrice (fst (validateAndNormalizeUpdate (\<lambda>s. s) (\<lambda>x. True) ?i)) = Some (Finite (25 / 2)) \<and>
         snd (validateAndNormalizeUpdate (\<lambda>s. s) (\<lambda>x. True) ?i) = None"
    using update_only_price [of ?i "Finite (25 / 2)" "\<lambda>s. s" "\<lambda>x. True"]
    by (simp add: hasMax2Decimals_def)
  then show ?thesis
    by (cases "validateAndNormalizeUpdate (\<lambda>s. s) (\<lambda>x. True) ?i";
        cases "fst (validateAndNormalizeUpdate (\<lambda>s. s) (\<lambda>x. True) ?i)") auto
qed

text \<open>
  What the code does about the length of title and author, in create and in update mode:
  the trimmed title is accepted (no \<^verbatim>\<open>title\<close> error is recorded) exactly when it is
  non-empty and at most 120 long, and the trimmed author exactly when it is non-empty and
  at most 80 long, where length is Go's \<^verbatim>\<open>len\<close>, the number of bytes of the string. A
  successful validation returns a title that is the trimmed input, non-empty, at most 120
  bytes long and without white space at either end, and an author that is the same with
  the bound 80.
\<close>

lemma title_author_byte_rules:
  "(map_of (errors_of (snd (validateAndNormalizeCreate uni near i))) ''title'' = None \<longleftrightarrow>
      TrimSpace (Title i) \<noteq> [] \<and> length (TrimSpace (Title i)) \<le> 120) \<and>
   (map_of (errors_of (snd (validateAndNormalizeCreate uni near i))) ''author'' = None \<longleftrightarrow>
      TrimSpace (Author i) \<noteq> [] \<and> length (TrimSpace (Author i)) \<le> 80) \<and>
   (snd (validateAndNormalizeCreate uni near i) = None \<longrightarrow>
      Title (fst (validateAndNormalizeCreate uni near i)) = TrimSpace (Title i) \<and>
      Title (fst (validateAndNormalizeCreate uni near i)) \<noteq> [] \<and>
      length (Title (fst (validateAndNormalizeCreate uni near i))) \<le> 120 \<and>
      outer_trimmed (Title (fst (validateAndNormalizeCreate uni near i))) \<and>
      Author (fst (validateAndNormalizeCreate uni near i)) = TrimSpace (Author i) \<and>
      Author (fst (validateAndNormalizeCreate uni near i)) \<noteq> [] \<and>
      length (Author (fst (validateAndNormalizeCreate uni near i))) \<le> 80 \<and>
      outer_trimmed (Author (fst (validateAndNormalizeCreate uni near i)))) \<and>
   (\<forall>t. uTitle p = Some t \<longrightarrow>
      (map_of (errors_of (snd (validateAndNormalizeUpdate uni near p))) ''title'' = None \<longleftrightarrow>
         TrimSpace t \<noteq> [] \<and> length (TrimSpace t) \<le> 120)) \<and>
   (\<forall>a. uAuthor p = Some a \<longrightarrow>
      (map_of (errors_of (snd (validateAndNormalizeUpdate uni near p))) ''author'' = None \<longleftrightarrow>
         TrimSpace a \<noteq> [] \<and> length (TrimSpace a) \<le> 80)) \<and>
   (snd (validateAndNormalizeUpdate uni near p) = None \<longrightarrow>
      (\<forall>t. uTitle p = Some t \<longrightarrow>
         uTitle (fst (validateAndNormalizeUpdate uni near p)) = Some (TrimSpace t) \<and>
         TrimSpace t \<noteq> [] \<and> length (TrimSpace t) \<le> 120 \<and> outer_trimmed (TrimSpace t)) \<and>
      (\<forall>a. uAuthor p = Some a \<longrightarrow>
         uAuthor (fst (validateAndNormalizeUpdate uni near p)) = Some (TrimSpace a) \<and>
         TrimSpace a \<noteq> [] \<and> length (TrimSpace a) \<le> 80 \<and> outer_trimmed (TrimSpace a)))"
proof (intro conjI impI allI)
  show "map_of (errors_of (snd (validateAndNormalizeCreate uni near i))) ''title'' = None \<longleftrightarrow>
      TrimSpace (Title i) \<noteq> [] \<and> length (TrimSpace (Title i)) \<le> 120"
    by (rule create_title_accepted)
  show "map_of (errors_of (snd (validateAndNormalizeCreate uni near i))) ''author'' = None \<longleftrightarrow>
      TrimSpace (Author i) \<noteq> [] \<and> length (TrimSpace (Author i)) \<le> 80"
    by (rule create_author_accepted)
next
  assume ok: "snd (validateAndNormalizeCreate uni near i) = None"
  have t: "TrimSpace (Title i) \<noteq> [] \<and> length (TrimSpace (Title i)) \<le> 120"
    using create_title_accepted [of uni near i] accepted_of_ok [OF ok, of "''title''"] by blast
  have a: "TrimSpace (Author i) \<noteq> [] \<and> length (TrimSpace (Author i)) \<le> 80"
    using create_author_accepted [of uni near i] accepted_of_ok [OF ok, of "''author''"] by blast
  show "Title (fst (validateAndNormalizeCreate uni near i)) = TrimSpace (Title i)"
    by (simp add: create_fst)
  show "Title (fst (validateAndNormalizeCreate uni near i)) \<noteq> []"
    using t by (simp add: create_fst)
  show "length (Title (fst (validateAndNormalizeCreate uni near i))) \<le> 120"
    using t by (simp add: create_fst)
  show "outer_trimmed (Title (fst (validateAndNormalizeCreate uni near i)))"
    by (simp add: create_fst TrimSpace_outer_trimmed)
  show "Author (fst (validateAndNormalizeCreate uni near i)) = TrimSpace (Author i)"
    by (simp add: create_fst)
  show "Author (fst (validateAndNormalizeCreate uni near i)) \<noteq> []"
    using a by (simp add: create_fst)
  show "length (Author (fst (validateAndNormalizeCreate uni near i))) \<le> 80"
    using a by (simp add: create_fst)
  show "outer_trimmed (Author (fst (validateAndNormalizeCreate uni near i)))"
    by (simp add: create_fst TrimSpace_outer_trimmed)
next
  fix t assume "uTitle p = Some t"
  then show "map_of (errors_of (snd (validateAndNormalizeUpdate uni near p))) ''title'' = None \<longleftrightarrow>
         TrimSpace t \<noteq> [] \<and> length (TrimSpace t) \<le> 120"
    by (rule update_title_accepted)
next
  fix a assume "uAuthor p = Some a"
  then show "map_of (errors_of (snd (validateAndNormalizeUpdate uni near p))) ''author'' = None \<longleftrightarrow>
         TrimSpace a \<noteq> [] \<and> length (TrimSpace a) \<le> 80"
    by (rule update_author_accepted)
next
  fix t assume ok: "snd (validateAndNormalizeUpdate uni near p) = None" and p: "uTitle p = Some t"
  have t: "TrimSpace t \<noteq> [] \<and> length (TrimSpace t) \<le> 120"
    using update_title_accepted [OF p, of uni near] accepted_of_ok [OF ok, of "''title''"] by blast
  then show "uTitle (fst (validateAndNormalizeUpdate uni near p)) = Some (TrimSpace t)"
    using p by (simp add: update_fst)
  show "TrimSpace t \<noteq> []" using t by simp
  show "length (TrimSpace t) \<le> 120" using t by simp
  show "outer_trimmed (TrimSpace t)" by (rule TrimSpace_outer_trimmed)
next
  fix a assume ok: "snd (validateAndNormalizeUpdate uni near p) = None" and p: "uAuthor p = Some a"
  have a: "TrimSpace a \<noteq> [] \<and> length (TrimSpace a) \<le> 80"
    using update_author_accepted [OF p, of uni near] accepted_of_ok [OF ok, of "''author''"] by blast
  then show "uAuthor (fst (validateAndNormalizeUpdate uni near p)) = Some (TrimSpace a)"
    using p by (simp add: update_fst)
  show "TrimSpace a \<noteq> []" using a by simp
  show "length (TrimSpace a) \<le> 80" using a by simp
  show "outer_trimmed (TrimSpace a)" by (rule TrimSpace_outer_trimmed)
qed


text \<open>
  Claim C9: a trimmed title is accepted exactly when it is non-empty and at most 120
  characters long (and an author with the bound 80). The code compares \<^verbatim>\<open>len(in.Title)\<close>,
  the number of bytes, with 120, under the message \<^verbatim>\<open>Title must be \<le> 120 characters\<close>. A
  title of 61 characters that take two bytes each is therefore refused, with that message,
  although the other four fields are valid.
\<close>

theorem title_limit_counts_bytes:
  "characters long_title = 61 \<and> length long_title = 122 \<and>
   snd (validateAndNormalizeCreate (\<lambda>s. s) (\<lambda>x. True)
     \<lparr>Title = long_title, Author = ''Robert C. Martin'', ISBN = ''0306406152'',
      Price = Finite 10, PublicationYear = 2008\<rparr>) = Some [(''title'', msg_title_long)]"
proof -
  let ?i = "\<lparr>Title = long_title, Author = ''Robert C. Martin'', ISBN = ''0306406152'',
      Price = Finite 10, PublicationYear = 2008\<rparr>"
  have c: "characters long_title = 61"
    by (simp add: characters_def long_title_def utf8_continuation_def numeral_eq_Suc)
  have l: "length long_title = 122"
    by (simp add: long_title_def length_concat sum_list_replicate)
  have ne: "long_title \<noteq> []" using l by auto
  have t: "TrimSpace long_title = long_title"
    by (rule outer_trimmed_TrimSpace [OF long_title_outer])
  have ta: "TrimSpace ''Robert C. Martin'' = ''Robert C. Martin''"
    and ti: "TrimSpace ''0306406152'' = ''0306406152''"
    by (simp_all add: TrimSpace_def space_seqs_def)
  have v: "isValidISBN (\<lambda>s. s) ''0306406152''"
    using example_isbn10 isValidISBN_candidate10 isValidISBN10_re by blast
  have "errors_of (snd (validateAndNormalizeCreate (\<lambda>s. s) (\<lambda>x. True) ?i)) =
      [(''title'', msg_title_long)]"
    unfolding create_errors
    using l ne by (simp add: t ta ti v isValidFourDigitYearInt_def minYear_def maxYear_def
        hasMax2Decimals_def)
  then have "snd (validateAndNormalizeCreate (\<lambda>s. s) (\<lambda>x. True) ?i) =
      Some [(''title'', msg_title_long)]"
    by (rule errors_Some) simp
  with c l show ?thesis by simp
qed

text \<open>
  Claim C10. Normalization is not undone when validation fails. Whatever the outcome of
  \<^verbatim>\<open>validateAndNormalizeCreate\<close>, the input it returns has title and author in trimmed
  form, and its ISBN is the normalized form (spaces and hyphens removed, upper-cased) of
  the trimmed ISBN of the input when that satisfies the ISBN-10 or the ISBN-13 rule, and
  the trimmed ISBN otherwise; for an ISBN with a byte outside ASCII the upper-casing is
  the parameter \<open>uni\<close>. That covers failing calls: a negative price makes the call fail
  whatever the other fields are.
\<close>

theorem create_normalizes_even_on_failure:
  "trimmed_form (Title i) (Title (fst (validateAndNormalizeCreate uni near i))) \<and>
   trimmed_form (Author i) (Author (fst (validateAndNormalizeCreate uni near i))) \<and>
   trimmed_form (ISBN i) (TrimSpace (ISBN i)) \<and>
   (list_all is_ascii (TrimSpace (ISBN i)) \<longrightarrow>
      ISBN (fst (validateAndNormalizeCreate uni near i)) =
        (if spec_isbn10 (spec_normalized (TrimSpace (ISBN i))) \<or>
            spec_isbn13 (spec_normalized (TrimSpace (ISBN i)))
         then spec_normalized (TrimSpace (ISBN i)) else TrimSpace (ISBN i))) \<and>
   (\<not> list_all is_ascii (TrimSpace (ISBN i)) \<longrightarrow>
      ISBN (fst (validateAndNormalizeCreate uni near i)) =
        (if spec_isbn10 (uni (spec_strip (TrimSpace (ISBN i)))) \<or>
            spec_isbn13 (uni (spec_strip (TrimSpace (ISBN i))))
         then uni (spec_strip (TrimSpace (ISBN i))) else TrimSpace (ISBN i))) \<and>
   (f_less (Price i) (Finite 0) \<longrightarrow> snd (validateAndNormalizeCreate uni near i) \<noteq> None)"
proof (intro conjI impI)
  show "trimmed_form (Title i) (Title (fst (validateAndNormalizeCreate uni near i)))"
    by (simp add: create_fst TrimSpace_trimmed_form)
  show "trimmed_form (Author i) (Author (fst (validateAndNormalizeCreate uni near i)))"
    by (simp add: create_fst TrimSpace_trimmed_form)
  show "trimmed_form (ISBN i) (TrimSpace (ISBN i))" by (rule TrimSpace_trimmed_form)
next
  assume "list_all is_ascii (TrimSpace (ISBN i))"
  then show "ISBN (fst (validateAndNormalizeCreate uni near i)) =
        (if spec_isbn10 (spec_normalized (TrimSpace (ISBN i))) \<or>
            spec_isbn13 (spec_normalized (TrimSpace (ISBN i)))
         then spec_normalized (TrimSpace (ISBN i)) else TrimSpace (ISBN i))"
    by (rule create_isbn_ascii)
next
  assume "\<not> list_all is_ascii (TrimSpace (ISBN i))"
  then show "ISBN (fst (validateAndNormalizeCreate uni near i)) =
        (if spec_isbn10 (uni (spec_strip (TrimSpace (ISBN i)))) \<or>
            spec_isbn13 (uni (spec_strip (TrimSpace (ISBN i))))
         then uni (spec_strip (TrimSpace (ISBN i))) else TrimSpace (ISBN i))"
    by (rule create_isbn_other)
next
  assume "f_less (Price i) (Finite 0)"
  then show "snd (validateAndNormalizeCreate uni near i) \<noteq> None"
    by (rule create_fails_on_price)
qed

theorem create_normalizes_even_on_failure_witness:
  "snd (validateAndNormalizeCreate (\<lambda>s. s) (\<lambda>x. True)
     \<lparr>Title = ''  Clean Code  '', Author = '' Robert C. Martin '', ISBN = '' 0-8044 2957-x '',
      Price = Finite (- 1), PublicationYear = 2008\<rparr>) \<noteq> None \<and>
   ISBN (fst (validateAndNormalizeCreate (\<lambda>s. s) (\<lambda>x. True)
     \<lparr>Title = ''  Clean Code  '', Author = '' Robert C. Martin '', ISBN = '' 0-8044 2957-x '',
      Price = Finite (- 1), PublicationYear = 2008\<rparr>)) = ''080442957X'' \<and>
   trimmed_form ''  Clean Code  '' ''Clean Code'' \<and>
   trimmed_form '' Robert C. Martin '' ''Robert C. Martin''"
proof -
  let ?i = "\<lparr>Title = ''  Clean Code  '', Author = '' Robert C. Martin '', ISBN = '' 0-8044 2957-x '',
      Price = Finite (- 1), PublicationYear = 2008\<rparr>"
  have a: "list_all is_ascii ''0-8044 2957-x''" by (simp add: is_ascii_def)
  have n: "spec_normalized ''0-8044 2957-x'' = ''080442957X''"
    by (simp add: spec_normalized_def spec_strip_def spec_upper_def)
  have s: "spec_isbn10 ''080442957X''"
    using example_x by (simp add: isValidISBN10_spec)
  have t: "Title (fst (validateAndNormalizeCreate (\<lambda>s. s) (\<lambda>x. True) ?i)) = ''Clean Code''"
    "Author (fst (validateAndNormalizeCreate (\<lambda>s. s) (\<lambda>x. True) ?i)) = ''Robert C. Martin''"
    by (simp_all add: create_fst TrimSpace_clean TrimSpace_martin)
  show ?thesis
    using create_normalizes_even_on_failure [of ?i "\<lambda>s. s" "\<lambda>x. True"] a n s
    by (simp add: TrimSpace_isbn_x t)
qed

text \<open>
  Claim C5. \<^verbatim>\<open>hasMax2Decimals\<close> is false for NaN and for both infinities. For a finite
  value it is true exactly when the binary64 product \<open>s\<close> of the value and 100 is finite
  and the distance between \<open>s\<close> and its nearest integer is below the binary64 value
  nearest to \<open>10\<^sup>-\<^sup>9\<close>, which differs from \<open>10\<^sup>-\<^sup>9\<close> by less than \<open>10\<^sup>-\<^sup>2\<^sup>5\<close>; the subtraction of the
  source computes that distance exactly. The literal \<^verbatim>\<open>10.23\<close> is the binary64 value
  \<open>2879489011750011 / 2\<^sup>4\<^sup>8\<close> and is accepted, the literal \<^verbatim>\<open>10.234\<close> is
  \<open>5761229823313707 / 2\<^sup>4\<^sup>9\<close> and is refused.
\<close>

theorem hasMax2Decimals_rule:
  "\<not> hasMax2Decimals near64 NaN \<and> \<not> hasMax2Decimals near64 PosInf \<and>
   \<not> hasMax2Decimals near64 NegInf \<and>
   (\<forall>x. hasMax2Decimals near64 (Finite x) \<longleftrightarrow>
      (\<exists>s. round64 (x * 100) = Finite s \<and> \<bar>s - of_int (round_away s)\<bar> < eps64)) \<and>
   \<bar>eps64 - 1 / 10 ^ 9\<bar> < 1 / 10 ^ 25 \<and>
   round64 (1023 / 100) = Finite (2879489011750011 / 2 ^ 48) \<and>
   hasMax2Decimals near64 (Finite (2879489011750011 / 2 ^ 48)) \<and>
   round64 (10234 / 1000) = Finite (5761229823313707 / 2 ^ 49) \<and>
   \<not> hasMax2Decimals near64 (Finite (5761229823313707 / 2 ^ 49))"
proof (intro conjI allI)
  show "\<not> hasMax2Decimals near64 NaN" "\<not> hasMax2Decimals near64 PosInf"
    "\<not> hasMax2Decimals near64 NegInf"
    by (simp_all add: hasMax2Decimals_def)
next
  fix x
  show "hasMax2Decimals near64 (Finite x) \<longleftrightarrow>
      (\<exists>s. round64 (x * 100) = Finite s \<and> \<bar>s - of_int (round_away s)\<bar> < eps64)"
    by (cases "round64 (x * 100)") (simp_all add: hasMax2Decimals_def near64_exact)
next
  show "\<bar>eps64 - 1 / 10 ^ 9\<bar> < 1 / 10 ^ 25" by (simp add: eps64_def)
  show "round64 (1023 / 100) = Finite (2879489011750011 / 2 ^ 48)" by code_simp
  show "hasMax2Decimals near64 (Finite (2879489011750011 / 2 ^ 48))" by code_simp
  show "round64 (10234 / 1000) = Finite (5761229823313707 / 2 ^ 49)" by code_simp
  show "\<not> hasMax2Decimals near64 (Finite (5761229823313707 / 2 ^ 49))" by code_simp
qed

theorem hasMax2Decimals_rule_witness:
  "hasMax2Decimals near64 (Finite (1 / 4)) \<and> \<not> hasMax2Decimals near64 (Finite (1 / 8))"
proof -
  have a: "round64 (1 / 4 * 100) = Finite 25" and b: "round64 (1 / 8 * 100) = Finite (25 / 2)"
    by code_simp+
  have c: "\<bar>25 - of_int (round_away 25)\<bar> < eps64"
    and d: "\<not> \<bar>25 / 2 - of_int (round_away (25 / 2))\<bar> < eps64"
    by code_simp+
  from hasMax2Decimals_rule have r: "\<And>x. hasMax2Decimals near64 (Finite x) \<longleftrightarrow>
      (\<exists>s. round64 (x * 100) = Finite s \<and> \<bar>s - of_int (round_away s)\<bar> < eps64)"
    by blast
  have "\<exists>s. round64 (1 / 4 * 100) = Finite s \<and> \<bar>s - of_int (round_away s)\<bar> < eps64"
    using a c by blast
  then have 1: "hasMax2Decimals near64 (Finite (1 / 4))" using r [of "1 / 4"] by blast
  have "\<not> (\<exists>s. round64 (1 / 8 * 100) = Finite s \<and> \<bar>s - of_int (round_away s)\<bar> < eps64)"
  proof
    assume "\<exists>s. round64 (1 / 8 * 100) = Finite s \<and> \<bar>s - of_int (round_away s)\<bar> < eps64"
    then obtain s where s: "round64 (1 / 8 * 100) = Finite s"
      and l: "\<bar>s - of_int (round_away s)\<bar> < eps64" by blast
    from s b have "s = 25 / 2" by (simp only: float64.inject)
    with l d show False by blast
  qed
  then have 2: "\<not> hasMax2Decimals near64 (Finite (1 / 8))" using r [of "1 / 8"] by blast
  from 1 2 show ?thesis by blast
qed

section \<open>Claims about the URL engine\<close>

text \<open>
  Claim C8, as stated: the engine fails exactly when the input does not parse into a URL
  with scheme and host, or the operation is not one of the three. This is false: the
  operation \<^verbatim>\<open>all\<close> parses the string made by its redirection step a second time, and
  fails with \<^verbatim>\<open>unexpected parse error\<close> when that string does not parse. The input below
  parses, with scheme \<^verbatim>\<open>http\<close> and a host; \<^verbatim>\<open>URL.String\<close> writes the two bytes of the
  zone's \<^verbatim>\<open>U+00E9\<close> as \<^verbatim>\<open>%C3%A9\<close>, and \<^verbatim>\<open>url.Parse\<close> refuses an escaped non-ASCII byte in
  a zone.
\<close>

theorem all_fails_on_parsed_input:
  "Parse plain_library zone_url =
     Some \<lparr>Scheme = ''http'', Opaque = [], User = None,
           Host = ''[fe80::1%'' @ [CHR 0xC3, CHR 0xA9] @ '']'', Path = ''/x'', RawPath = [],
           OmitHost = False, ForceQuery = False, RawQuery = [], Fragment = [], RawFragment = []\<rparr> \<and>
   processURL plain_library ''redirection'' zone_url = Inr ''http://[fe80::1%25%C3%A9]/x'' \<and>
   processURL plain_library ''all'' zone_url = Inl ''unexpected parse error''"
  using zone_url_parse zone_url_redirection zone_url_all by simp

text \<open>
  Claim C8, amended. The engine fails with \<^verbatim>\<open>invalid url\<close> exactly when the input does not
  parse into a URL with non-empty scheme and host; otherwise with the \<^verbatim>\<open>invalid operation\<close>
  message naming the allowed values exactly when the operation is none of \<^verbatim>\<open>canonical\<close>,
  \<^verbatim>\<open>redirection\<close>, \<^verbatim>\<open>all\<close>; otherwise with \<^verbatim>\<open>unexpected parse error\<close> exactly when the
  operation is \<^verbatim>\<open>all\<close> and the string of the redirection step does not parse again. In
  every other case it returns a URL string.
\<close>

theorem processURL_outcomes:
  "(processURL lib op raw = Inl ''invalid url'' \<longleftrightarrow> \<not> parses_with_scheme_and_host lib raw) \<and>
   (processURL lib op raw = Inl ''invalid operation (use: redirection|canonical|all)'' \<longleftrightarrow>
      parses_with_scheme_and_host lib raw \<and> op \<notin> {''canonical'', ''redirection'', ''all''}) \<and>
   (processURL lib op raw = Inl ''unexpected parse error'' \<longleftrightarrow>
      parses_with_scheme_and_host lib raw \<and> op = ''all'' \<and> \<not> redirection_reparses lib raw) \<and>
   ((\<exists>s. processURL lib op raw = Inr s) \<longleftrightarrow>
      parses_with_scheme_and_host lib raw \<and>
      (op = ''canonical'' \<or> op = ''redirection'' \<or> (op = ''all'' \<and> redirection_reparses lib raw)))"
  by (auto simp: processURL_def parses_with_scheme_and_host_def redirection_reparses_def Let_def
      split: option.splits)

theorem processURL_outcomes_witness:
  "processURL plain_library ''all'' zone_url = Inl ''unexpected parse error'' \<and>
   parses_with_scheme_and_host plain_library zone_url \<and>
   \<not> redirection_reparses plain_library zone_url \<and>
   processURL plain_library ''canonical'' ''not-a-url'' = Inl ''invalid url'' \<and>
   \<not> parses_with_scheme_and_host plain_library ''not-a-url''"
  using processURL_outcomes [of plain_library "''all''" zone_url]
    processURL_outcomes [of plain_library "''canonical''" "''not-a-url''"]
    zone_url_all canonical_not_a_url [of plain_library]
  by simp

text \<open>
  Claim C1: redirection keeps the query string in the form of the input, but for one
  trailing slash of each value. The code does not: \<^verbatim>\<open>applyRedirection\<close> parses the query
  into a map and writes it again with \<^verbatim>\<open>Values.Encode\<close>, which sorts the parameters by
  name. The query \<^verbatim>\<open>b=1&a=2\<close>, in which no value ends in a slash, comes out as \<^verbatim>\<open>a=2&b=1\<close>.
  The scenario of the claim has its parameters in sorted order and comes out unchanged.
\<close>

theorem redirection_reorders_query:
  "processURL plain_library ''redirection'' ''https://example.com/p?b=1&a=2'' =
     Inr ''https://www.example.com/p?a=2&b=1'' \<and>
   processURL plain_library ''redirection'' ''https://example.com/Path/To/?x=1&y=2'' =
     Inr ''https://www.example.com/path/to?x=1&y=2''"
  using redirection_reorders redirection_scenario by simp

end
